theory Spec2Isabelle
  imports Complex_Main "HOL-Library.AList" "HOL-Library.Multiset"
begin

section \<open>Guardrails and session tracking of MOT\_CEL\<close>

text \<open>
  A shallow embedding of \<^verbatim>\<open>guardrails.py\<close>, \<^verbatim>\<open>yolo_service.py\<close> and
  \<^verbatim>\<open>websocket_server.py\<close>. Python floats are modelled as real numbers (no rounding,
  no NaN, no infinities), Python ints as \<open>int\<close>, a dict whose iteration order matters as
  an association list, and every piece of mutable state as a value passed in and returned.
  The wall clock (\<^verbatim>\<open>time.time()\<close>) is an argument of the functions that read it.
\<close>

subsection \<open>RateLimiter (guardrails.py, lines 26-61)\<close>

text \<open>
  \<^verbatim>\<open>RateLimiter._requests\<close> is a \<^verbatim>\<open>defaultdict(list)\<close> from session id to the list
  of admitted timestamps: a missing key reads as the empty list.
\<close>

type_synonym rate_state = "string \<rightharpoonup> real list"

datatype rate_msg = RateOK | RateLimitExceeded int

definition window :: "rate_state \<Rightarrow> string \<Rightarrow> real list" where
  "window st session_id = (case st session_id of None \<Rightarrow> [] | Some r \<Rightarrow> r)"

definition check :: "rate_state \<Rightarrow> string \<Rightarrow> int \<Rightarrow> real \<Rightarrow> (bool \<times> rate_msg) \<times> rate_state" where
  "check st session_id max_per_second now =
     (let requests = filter (\<lambda>req_time. now - req_time < 1) (window st session_id)
      in if int (length requests) \<ge> max_per_second
         then ((False, RateLimitExceeded max_per_second), st(session_id \<mapsto> requests))
         else ((True, RateOK), st(session_id \<mapsto> requests @ [now])))"

definition reset_session :: "rate_state \<Rightarrow> string \<Rightarrow> rate_state" where
  "reset_session st session_id = (if session_id \<in> dom st then st(session_id := None) else st)"

text \<open>
  A run of the limiter: the calls \<open>(session_id, now)\<close> in the order they are made, all with
  the same configured limit. The run returns the final windows and the log of the admitted
  calls.
\<close>

definition check_step :: "int \<Rightarrow> rate_state \<times> (string \<times> real) list \<Rightarrow> string \<times> real
    \<Rightarrow> rate_state \<times> (string \<times> real) list" where
  "check_step limit acc call =
     (let r = check (fst acc) (fst call) limit (snd call)
      in (snd r, if fst (fst r) then snd acc @ [call] else snd acc))"

definition run_checks :: "int \<Rightarrow> (string \<times> real) list \<Rightarrow> rate_state \<times> (string \<times> real) list" where
  "run_checks limit calls = foldl (check_step limit) (Map.empty, []) calls"

definition admitted_times :: "string \<Rightarrow> (string \<times> real) list \<Rightarrow> real list" where
  "admitted_times session_id adm = map snd (filter (\<lambda>c. fst c = session_id) adm)"

definition in_trailing_window :: "real \<Rightarrow> real \<Rightarrow> bool" where
  "in_trailing_window T t = (t \<le> T \<and> T - t < 1)"

subsection \<open>Python values\<close>

text \<open>
  The detections handled by \<^verbatim>\<open>DetectionValidator\<close> are untyped Python data
  (\<^verbatim>\<open>List[Dict[str, Any]]\<close>). A dict with string keys keeps its insertion order, so it
  is an association list: \<open>map_of\<close> is the lookup and \<open>AList.update\<close> the assignment
  \<^verbatim>\<open>d[k] = v\<close> (in place for a present key, at the end for a new one).
\<close>

datatype pyval =
    PNone
  | PBool bool
  | PInt int
  | PFloat real
  | PStr string
  | PList "pyval list"
  | PDict "(string \<times> pyval) list"

text \<open>Truthiness, as \<^verbatim>\<open>not x\<close> and \<^verbatim>\<open>if x:\<close> test it.\<close>

fun truthy :: "pyval \<Rightarrow> bool" where
  "truthy PNone = False"
| "truthy (PBool b) = b"
| "truthy (PInt i) = (i \<noteq> 0)"
| "truthy (PFloat r) = (r \<noteq> 0)"
| "truthy (PStr s) = (s \<noteq> [])"
| "truthy (PList xs) = (xs \<noteq> [])"
| "truthy (PDict kvs) = (kvs \<noteq> [])"

text \<open>\<^verbatim>\<open>d.get(key, default)\<close> on a dict's items.\<close>

definition dict_get :: "(string \<times> pyval) list \<Rightarrow> string \<Rightarrow> pyval \<Rightarrow> pyval" where
  "dict_get kvs key dflt = (case map_of kvs key of None \<Rightarrow> dflt | Some v \<Rightarrow> v)"

text \<open>
  \<^verbatim>\<open>isinstance(x, (int, float))\<close>: \<^verbatim>\<open>bool\<close> is a subclass of \<^verbatim>\<open>int\<close>. \<open>num_val\<close> is
  the number such a value compares as.
\<close>

fun is_number :: "pyval \<Rightarrow> bool" where
  "is_number (PBool b) = True"
| "is_number (PInt i) = True"
| "is_number (PFloat r) = True"
| "is_number v = False"

fun num_val :: "pyval \<Rightarrow> real" where
  "num_val (PBool b) = (if b then 1 else 0)"
| "num_val (PInt i) = real_of_int i"
| "num_val (PFloat r) = r"
| "num_val v = 0"

text \<open>
  \<^verbatim>\<open>float(x)\<close>: a number converts; a string converts when Python's float parser accepts it
  (the parser is the parameter \<open>parse_float\<close>, \<open>None\<close> standing for \<^verbatim>\<open>ValueError\<close>);
  every other value raises \<^verbatim>\<open>TypeError\<close>. Both exceptions are \<open>None\<close> here: the one
  caller catches them together.
\<close>

fun to_float :: "(string \<Rightarrow> real option) \<Rightarrow> pyval \<Rightarrow> real option" where
  "to_float parse_float (PBool b) = Some (if b then 1 else 0)"
| "to_float parse_float (PInt i) = Some (real_of_int i)"
| "to_float parse_float (PFloat r) = Some r"
| "to_float parse_float (PStr s) = parse_float s"
| "to_float parse_float v = None"

subsection \<open>DetectionValidator (guardrails.py, lines 197-341)\<close>

definition MIN_CONFIDENCE :: real where "MIN_CONFIDENCE = 0.3"
definition MIN_BBOX_AREA :: real where "MIN_BBOX_AREA = 100"
definition MAX_DETECTIONS_PER_FRAME :: nat where "MAX_DETECTIONS_PER_FRAME = 100"
definition MAX_BBOX_SIZE_RATIO :: real where "MAX_BBOX_SIZE_RATIO = 0.95"

text \<open>
  The entries of the returned warnings list. Each constructor is one message of the source
  and carries the values the message interpolates (the detection's index first).
\<close>

datatype warning =
    NotAList
  | BadFrameShape
  | NotADict nat
  | BadConfidence nat pyval
  | BboxNotList nat
  | BboxWrongLength nat nat
  | BboxBadCoords nat "pyval list"
  | BboxInverted nat real real real real
  | BboxClamped nat
  | BboxTooLarge nat real
  | MissingFields nat "string list"
  | LimitExceeded nat nat

text \<open>The loop's local state: the two result lists and the four counters that are only logged.\<close>

record vstate =
  valid_detections :: "pyval list"
  warnings :: "warning list"
  rejected_low_confidence :: nat
  rejected_invalid_bbox :: nat
  rejected_too_small :: nat
  rejected_out_of_bounds :: nat

definition init_vstate :: vstate where
  "init_vstate = \<lparr>valid_detections = [], warnings = [], rejected_low_confidence = 0,
     rejected_invalid_bbox = 0, rejected_too_small = 0, rejected_out_of_bounds = 0\<rparr>"

definition warn :: "warning \<Rightarrow> vstate \<Rightarrow> vstate" where
  "warn m s = s\<lparr>warnings := warnings s @ [m]\<rparr>"

text \<open>
  Lines 282-295, the bounds check of one bbox against the frame \<open>(h, w)\<close>: beyond the 10%
  band the bbox is rejected, beyond the 5% band only it is clamped, otherwise it is left as
  it is.
\<close>

datatype bounds_result = OutOfBounds | Clamped real real real real | Unchanged

definition check_bounds :: "int \<Rightarrow> int \<Rightarrow> real \<Rightarrow> real \<Rightarrow> real \<Rightarrow> real \<Rightarrow> bounds_result" where
  "check_bounds h w x1 y1 x2 y2 =
     (let tolerance = 0.05 :: real in
      if x1 < - real_of_int w * tolerance \<or> y1 < - real_of_int h * tolerance \<or>
         x2 > real_of_int w * (1 + tolerance) \<or> y2 > real_of_int h * (1 + tolerance)
      then
        if x1 < - real_of_int w * 0.1 \<or> y1 < - real_of_int h * 0.1 \<or>
           x2 > real_of_int w * 1.1 \<or> y2 > real_of_int h * 1.1
        then OutOfBounds
        else Clamped (max 0 (min x1 (real_of_int w))) (max 0 (min y1 (real_of_int h)))
                     (max 0 (min x2 (real_of_int w))) (max 0 (min y2 (real_of_int h)))
      else Unchanged)"

definition required_fields :: "string list" where
  "required_fields = [''class_id'', ''class_name'', ''track_id'']"

text \<open>Lines 297-321, from the area check on, for the (possibly clamped) bbox.\<close>

definition finish_detection :: "int \<Rightarrow> int \<Rightarrow> nat \<Rightarrow> (string \<times> pyval) list \<Rightarrow> real
    \<Rightarrow> real \<Rightarrow> real \<Rightarrow> real \<Rightarrow> real \<Rightarrow> vstate \<Rightarrow> vstate" where
  "finish_detection h w i det confidence x1 y1 x2 y2 s =
     (let area = (x2 - x1) * (y2 - y1) in
      if area < MIN_BBOX_AREA then s\<lparr>rejected_too_small := rejected_too_small s + 1\<rparr>
      else
        let frame_area = w * h;
            bbox_ratio = (if frame_area > 0 then area / real_of_int frame_area else 0);
            s1 = (if bbox_ratio > MAX_BBOX_SIZE_RATIO then warn (BboxTooLarge i bbox_ratio) s else s);
            missing_fields = filter (\<lambda>field. map_of det field = None) required_fields
        in if missing_fields \<noteq> [] then warn (MissingFields i missing_fields) s1
           else
             let validated_det =
                   AList.update ''confidence'' (PFloat confidence)
                     (AList.update ''bbox'' (PList [PFloat x1, PFloat y1, PFloat x2, PFloat y2]) det)
             in s1\<lparr>valid_detections := valid_detections s1 @ [PDict validated_det]\<rparr>)"

text \<open>The body of the loop (lines 244-321) for the detection \<open>det\<close> at index \<open>i\<close>.\<close>

definition validate_one :: "(string \<Rightarrow> real option) \<Rightarrow> int \<Rightarrow> int \<Rightarrow> nat \<Rightarrow> pyval \<Rightarrow> vstate \<Rightarrow> vstate" where
  "validate_one parse_float h w i d s =
     (case d of
        PDict det \<Rightarrow>
          let confidence = dict_get det ''confidence'' (PFloat 0) in
          if \<not> is_number confidence then warn (BadConfidence i confidence) s
          else if num_val confidence < MIN_CONFIDENCE
          then s\<lparr>rejected_low_confidence := rejected_low_confidence s + 1\<rparr>
          else
            (case dict_get det ''bbox'' (PList []) of
               PList bbox \<Rightarrow>
                 if length bbox \<noteq> 4
                 then (warn (BboxWrongLength i (length bbox)) s)
                        \<lparr>rejected_invalid_bbox := rejected_invalid_bbox s + 1\<rparr>
                 else
                   (case map (to_float parse_float) bbox of
                      [Some x1, Some y1, Some x2, Some y2] \<Rightarrow>
                        if x1 \<ge> x2 \<or> y1 \<ge> y2
                        then (warn (BboxInverted i x1 y1 x2 y2) s)
                               \<lparr>rejected_invalid_bbox := rejected_invalid_bbox s + 1\<rparr>
                        else
                          (case check_bounds h w x1 y1 x2 y2 of
                             OutOfBounds \<Rightarrow>
                               s\<lparr>rejected_out_of_bounds := rejected_out_of_bounds s + 1\<rparr>
                           | Clamped cx1 cy1 cx2 cy2 \<Rightarrow>
                               finish_detection h w i det (num_val confidence) cx1 cy1 cx2 cy2
                                 (warn (BboxClamped i) s)
                           | Unchanged \<Rightarrow>
                               finish_detection h w i det (num_val confidence) x1 y1 x2 y2 s)
                    | _ \<Rightarrow>
                        (warn (BboxBadCoords i bbox) s)
                          \<lparr>rejected_invalid_bbox := rejected_invalid_bbox s + 1\<rparr>)
             | _ \<Rightarrow> warn (BboxNotList i) s)
      | _ \<Rightarrow> warn (NotADict i) s)"

text \<open>\<^verbatim>\<open>for i, det in enumerate(detections)\<close>, from index \<open>i\<close> on.\<close>

fun validate_loop :: "(string \<Rightarrow> real option) \<Rightarrow> int \<Rightarrow> int \<Rightarrow> nat \<Rightarrow> pyval list \<Rightarrow> vstate \<Rightarrow> vstate" where
  "validate_loop parse_float h w i [] s = s"
| "validate_loop parse_float h w i (d # ds) s =
     validate_loop parse_float h w (Suc i) ds (validate_one parse_float h w i d s)"

text \<open>
  The sort key of line 326, \<^verbatim>\<open>x.get("confidence", 0)\<close>. Every element of
  \<open>valid_detections\<close> is a dict whose confidence was stored as a float by line 320.
\<close>

definition confidence_key :: "pyval \<Rightarrow> real" where
  "confidence_key d = (case d of PDict kvs \<Rightarrow> num_val (dict_get kvs ''confidence'' (PInt 0)) | _ \<Rightarrow> 0)"

text \<open>
  Lines 323-329. \<^verbatim>\<open>list.sort(key=..., reverse=True)\<close> is a stable sort into descending
  key order (elements with equal keys keep their order, also under \<^verbatim>\<open>reverse\<close>): the
  stable \<open>sort_key\<close> on the negated key.
\<close>

definition limit_detections :: "vstate \<Rightarrow> vstate" where
  "limit_detections s =
     (if length (valid_detections s) > MAX_DETECTIONS_PER_FRAME
      then
        let sorted_dets = sort_key (\<lambda>x. - confidence_key x) (valid_detections s);
            removed = length sorted_dets - MAX_DETECTIONS_PER_FRAME
        in s\<lparr>valid_detections := take MAX_DETECTIONS_PER_FRAME sorted_dets,
              warnings := warnings s @ [LimitExceeded MAX_DETECTIONS_PER_FRAME removed]\<rparr>
      else s)"

text \<open>
  \<open>validate_run\<close> is the whole of \<open>validate_detections\<close>, with the counters still in the
  result; \<open>validate_detections\<close> returns what the source returns. The frame shape is the
  sequence the source unpacks into \<open>h, w\<close>.
\<close>

definition validate_run :: "(string \<Rightarrow> real option) \<Rightarrow> pyval \<Rightarrow> int list \<Rightarrow> vstate" where
  "validate_run parse_float detections frame_shape =
     (if \<not> truthy detections then init_vstate
      else case detections of
        PList dets \<Rightarrow>
          (case frame_shape of
             [h, w] \<Rightarrow> limit_detections (validate_loop parse_float h w 0 dets init_vstate)
           | _ \<Rightarrow> warn BadFrameShape init_vstate)
      | _ \<Rightarrow> warn NotAList init_vstate)"

definition validate_detections :: "(string \<Rightarrow> real option) \<Rightarrow> pyval \<Rightarrow> int list
    \<Rightarrow> pyval list \<times> warning list" where
  "validate_detections parse_float detections frame_shape =
     (let s = validate_run parse_float detections frame_shape
      in (valid_detections s, warnings s))"

text \<open>Reading the bbox of a returned detection back.\<close>

definition bbox_of :: "pyval \<Rightarrow> (real \<times> real \<times> real \<times> real) option" where
  "bbox_of d =
     (case d of
        PDict kvs \<Rightarrow>
          (case map_of kvs ''bbox'' of
             Some (PList [PFloat x1, PFloat y1, PFloat x2, PFloat y2]) \<Rightarrow> Some (x1, y1, x2, y2)
           | _ \<Rightarrow> None)
      | _ \<Rightarrow> None)"

subsection \<open>Specification predicates for DetectionValidator\<close>

text \<open>
  The form of a detection that the validator returns: a dict with a float confidence of at
  least \<open>MIN_CONFIDENCE\<close>, a bbox of four floats with \<open>x1 < x2\<close> and \<open>y1 < y2\<close> that
  the bounds check leaves as it is, an area of at least \<open>MIN_BBOX_AREA\<close>, and every
  required field.
\<close>

definition accepted :: "int \<Rightarrow> int \<Rightarrow> pyval \<Rightarrow> bool" where
  "accepted h w d =
     (case d of
        PDict kvs \<Rightarrow>
          (case (map_of kvs ''confidence'', bbox_of d) of
             (Some (PFloat c), Some (x1, y1, x2, y2)) \<Rightarrow>
               MIN_CONFIDENCE \<le> c \<and> x1 < x2 \<and> y1 < y2 \<and>
               check_bounds h w x1 y1 x2 y2 = Unchanged \<and>
               MIN_BBOX_AREA \<le> (x2 - x1) * (y2 - y1) \<and>
               filter (\<lambda>field. map_of kvs field = None) required_fields = []
           | _ \<Rightarrow> False)
      | _ \<Rightarrow> False)"

text \<open>A warnings list that holds nothing but "bbox very large" notes: no rejection, no clamping.\<close>

definition only_size_warnings :: "warning list \<Rightarrow> bool" where
  "only_size_warnings ws = list_all (\<lambda>x. case x of BboxTooLarge i r \<Rightarrow> True | _ \<Rightarrow> False) ws"





text \<open>
  A detection that line 254 rejects, and the index of the detection a warning is about
  (none for the three messages about the whole batch).
\<close>

definition low_confidence :: "pyval \<Rightarrow> bool" where
  "low_confidence d =
     (case d of
        PDict det \<Rightarrow>
          is_number (dict_get det ''confidence'' (PFloat 0)) \<and>
          num_val (dict_get det ''confidence'' (PFloat 0)) < MIN_CONFIDENCE
      | _ \<Rightarrow> False)"

fun warning_index :: "warning \<Rightarrow> nat option" where
  "warning_index NotAList = None"
| "warning_index BadFrameShape = None"
| "warning_index (NotADict i) = Some i"
| "warning_index (BadConfidence i v) = Some i"
| "warning_index (BboxNotList i) = Some i"
| "warning_index (BboxWrongLength i n) = Some i"
| "warning_index (BboxBadCoords i b) = Some i"
| "warning_index (BboxInverted i x1 y1 x2 y2) = Some i"
| "warning_index (BboxClamped i) = Some i"
| "warning_index (BboxTooLarge i r) = Some i"
| "warning_index (MissingFields i fs) = Some i"
| "warning_index (LimitExceeded m n) = None"

subsection \<open>YOLOTracker (yolo\_service.py, lines 47-127)\<close>

text \<open>
  The tracker object is created once (\<^verbatim>\<open>tracker = YOLOTracker(MODEL_PATH)\<close>) and serves
  every session. \<^verbatim>\<open>trackers\<close> maps a session id to a dict from track id to last
  centroid; that inner dict is iterated by \<^verbatim>\<open>.items()\<close>, so it is an association list in
  insertion order (assignment to a present key keeps its place, a new key goes to the end:
  \<open>AList.update\<close>). \<^verbatim>\<open>track_history\<close> is a \<^verbatim>\<open>defaultdict(list)\<close>: a missing key reads as
  the empty list. Coordinates are floats, modelled as reals; the counter is a Python int.
\<close>

type_synonym point = "real \<times> real"
type_synonym xyxy = "real \<times> real \<times> real \<times> real"

record box =
  box_xyxy :: xyxy
  box_conf :: real
  box_cls :: int

text \<open>
  A returned detection. The class name is read from the model's table of names and plays no
  part in tracking; it is left out.
\<close>

record detection =
  det_bbox :: xyxy
  det_confidence :: real
  det_class_id :: int
  det_track_id :: int

record tracker_state =
  trackers :: "string \<rightharpoonup> (int \<times> point) list"
  track_id_counter :: int
  track_history :: "int \<rightharpoonup> point list"

text \<open>Lines 50-54, \<^verbatim>\<open>__init__\<close>.\<close>

definition init_tracker :: tracker_state where
  "init_tracker = \<lparr>trackers = Map.empty, track_id_counter = 0, track_history = Map.empty\<rparr>"

definition centre :: "xyxy \<Rightarrow> point" where
  "centre b = (case b of (x1, y1, x2, y2) \<Rightarrow> ((x1 + x2) / 2, (y1 + y2) / 2))"

definition distance :: "point \<Rightarrow> point \<Rightarrow> real" where
  "distance c last_pos = sqrt ((fst c - fst last_pos)\<^sup>2 + (snd c - snd last_pos)\<^sup>2)"

text \<open>
  Lines 108-115: one turn of the loop over the session's tracks. \<open>min_distance\<close> starts as
  \<^verbatim>\<open>float('inf')\<close>, here \<open>None\<close>, below which every distance lies.
\<close>

definition match_step :: "point \<Rightarrow> real option \<times> int option \<Rightarrow> int \<times> point \<Rightarrow> real option \<times> int option" where
  "match_step c acc item =
     (case acc of (min_distance, matched_id) \<Rightarrow>
      case item of (tid, last_pos) \<Rightarrow>
        if (case min_distance of None \<Rightarrow> True | Some m \<Rightarrow> distance c last_pos < m) \<and>
           distance c last_pos < 50
        then (Some (distance c last_pos), Some tid)
        else (min_distance, matched_id))"

definition match_loop :: "point \<Rightarrow> (int \<times> point) list \<Rightarrow> real option \<times> int option" where
  "match_loop c items = foldl (match_step c) (None, None) items"

text \<open>The session's dict of tracks, empty when the session is new (lines 102-103).\<close>

definition session_tracks :: "tracker_state \<Rightarrow> string \<Rightarrow> (int \<times> point) list" where
  "session_tracks s sid = (case trackers s sid of None \<Rightarrow> [] | Some t \<Rightarrow> t)"

text \<open>Lines 100-123, \<^verbatim>\<open>_assign_track_id\<close>: the id returned and the state left behind.\<close>

definition assign_track_id :: "string \<Rightarrow> xyxy \<Rightarrow> tracker_state \<Rightarrow> int \<times> tracker_state" where
  "assign_track_id sid b s =
     (let tracks = session_tracks s sid;
          c = centre b
      in case snd (match_loop c tracks) of
           None \<Rightarrow>
             (track_id_counter s,
              s\<lparr>trackers := (trackers s)(sid \<mapsto> AList.update (track_id_counter s) c tracks),
                track_id_counter := track_id_counter s + 1\<rparr>)
         | Some matched_id \<Rightarrow>
             (matched_id,
              s\<lparr>trackers := (trackers s)(sid \<mapsto> AList.update matched_id c tracks)\<rparr>))"

text \<open>\<^verbatim>\<open>get_track_history\<close> (lines 125-127), and the read of the \<^verbatim>\<open>defaultdict\<close>.\<close>

definition get_track_history :: "tracker_state \<Rightarrow> int \<Rightarrow> point list" where
  "get_track_history s tid = (case track_history s tid of None \<Rightarrow> [] | Some h \<Rightarrow> h)"

text \<open>
  Lines 66-91: the body of the loop over the boxes of a frame. The detection is appended to
  the result, its centroid to the history of its track, and the head of that history is
  popped when it is longer than 30.
\<close>

definition track_box :: "string \<Rightarrow> detection list \<times> tracker_state \<Rightarrow> box \<Rightarrow> detection list \<times> tracker_state" where
  "track_box sid acc b =
     (case acc of (detections, s) \<Rightarrow>
      case assign_track_id sid (box_xyxy b) s of (tid, s1) \<Rightarrow>
        let det = \<lparr>det_bbox = box_xyxy b, det_confidence = box_conf b,
                    det_class_id = box_cls b, det_track_id = tid\<rparr>;
            h = get_track_history s1 tid @ [centre (box_xyxy b)];
            h' = (if length h > 30 then tl h else h)
        in (detections @ [det], s1\<lparr>track_history := (track_history s1)(tid \<mapsto> h')\<rparr>))"

text \<open>
  Lines 55-98, \<^verbatim>\<open>detect_and_track\<close>. The model's output for the frame is the parameter
  \<open>results\<close>: a list of results, each with its boxes or \<^verbatim>\<open>None\<close>.
\<close>

definition detect_and_track :: "string \<Rightarrow> box list option list \<Rightarrow> tracker_state \<Rightarrow> detection list \<times> tracker_state" where
  "detect_and_track sid results s =
     foldl (\<lambda>acc r. case r of None \<Rightarrow> acc | Some boxes \<Rightarrow> foldl (track_box sid) acc boxes)
       ([], s) results"

text \<open>
  The life of the tracker: the frames of all sessions arrive one after the other
  (\<^verbatim>\<open>process_video_frame\<close>, line 163), each with its session id; every call returns the
  detections with that session id.
\<close>

definition serve_step :: "tracker_state \<times> (string \<times> detection list) list \<Rightarrow> string \<times> box list option list \<Rightarrow>
    tracker_state \<times> (string \<times> detection list) list" where
  "serve_step acc frame =
     (case acc of (s, out) \<Rightarrow>
      case frame of (sid, results) \<Rightarrow>
      case detect_and_track sid results s of (dets, s') \<Rightarrow> (s', out @ [(sid, dets)]))"

definition serve :: "(string \<times> box list option list) list \<Rightarrow> tracker_state \<times> (string \<times> detection list) list" where
  "serve frames = foldl serve_step (init_tracker, []) frames"

text \<open>The track ids a session holds.\<close>

definition session_ids :: "tracker_state \<Rightarrow> string \<Rightarrow> int set" where
  "session_ids s sid = fst ` set (session_tracks s sid)"

text \<open>All detections returned so far, each with the session id of the call that returned it.\<close>

definition returned :: "(string \<times> detection list) list \<Rightarrow> (string \<times> detection) list" where
  "returned out = concat (map (\<lambda>(sid, dets). map (Pair sid) dets) out)"

text \<open>What the loop over the tracks has found after any number of turns.\<close>

definition match_inv :: "point \<Rightarrow> (int \<times> point) list \<Rightarrow> real option \<times> int option \<Rightarrow> bool" where
  "match_inv c seen acc =
     (case acc of
        (None, None) \<Rightarrow> (\<forall>(t, q) \<in> set seen. \<not> distance c q < 50)
      | (Some d, Some m) \<Rightarrow>
          (\<exists>p. (m, p) \<in> set seen \<and> d = distance c p \<and> d < 50 \<and>
             (\<forall>(t, q) \<in> set seen. d \<le> distance c q))
      | _ \<Rightarrow> False)"

text \<open>
  What holds of the tracker and of the detections returned so far, at every moment of its
  life: the ids a session holds are below the counter; two sessions hold no id in common;
  every detection returned for a session carries an id that session holds; every centroid
  in the history of an id is that of a detection returned with that id; no history is
  longer than 30.
\<close>

definition tracker_inv :: "tracker_state \<Rightarrow> (string \<times> detection) list \<Rightarrow> bool" where
  "tracker_inv s L \<longleftrightarrow>
     (\<forall>sid. \<forall>t \<in> session_ids s sid. t < track_id_counter s) \<and>
     (\<forall>sid sid'. sid \<noteq> sid' \<longrightarrow> session_ids s sid \<inter> session_ids s sid' = {}) \<and>
     (\<forall>(sid, d) \<in> set L. det_track_id d \<in> session_ids s sid) \<and>
     (\<forall>tid. \<forall>c \<in> set (get_track_history s tid).
        \<exists>(sid, d) \<in> set L. det_track_id d = tid \<and> centre (det_bbox d) = c) \<and>
     (\<forall>tid. length (get_track_history s tid) \<le> 30)"

text \<open>The detection built at lines 73-79 for a box and the id assigned to it.\<close>

definition detection_of :: "box \<Rightarrow> int \<Rightarrow> detection" where
  "detection_of b tid = \<lparr>det_bbox = box_xyxy b, det_confidence = box_conf b,
     det_class_id = box_cls b, det_track_id = tid\<rparr>"

section \<open>Verification\<close>

subsection \<open>RateLimiter\<close>

lemma window_check_same:
  "window (snd (check st sid limit now)) sid =
     (let r = filter (\<lambda>t. now - t < 1) (window st sid)
      in if int (length r) \<ge> limit then r else r @ [now])"
  by (simp add: check_def window_def Let_def)

lemma window_check_other:
  "sid' \<noteq> sid \<Longrightarrow> window (snd (check st sid limit now)) sid' = window st sid'"
  by (simp add: check_def window_def Let_def)

lemma check_allowed:
  "fst (fst (check st sid limit now)) \<longleftrightarrow>
     int (length (filter (\<lambda>t. now - t < 1) (window st sid))) < limit"
  by (auto simp add: check_def Let_def)

lemma run_checks_snoc:
  "run_checks limit (calls @ [c]) = check_step limit (run_checks limit calls) c"
  by (simp add: run_checks_def)

lemma run_checks_Nil: "run_checks limit [] = (Map.empty, [])"
  by (simp add: run_checks_def)

lemma window_length_inv:
  "0 \<le> limit \<Longrightarrow> int (length (window (fst (run_checks limit calls)) sid)) \<le> limit"
proof (induction calls rule: rev_induct)
  case Nil
  then show ?case by (simp add: run_checks_Nil window_def)
next
  case (snoc c calls)
  let ?st = "fst (run_checks limit calls)"
  have le: "length (filter (\<lambda>t. snd c - t < 1) (window ?st sid)) \<le> length (window ?st sid)"
    by (rule length_filter_le)
  show ?case
  proof (cases "fst c = sid")
    case True
    have "int (length (filter (\<lambda>t. snd c - t < 1) (window ?st sid))) \<le> limit"
      using snoc le by linarith
    then show ?thesis
      using True
      by (simp add: run_checks_snoc check_step_def window_check_same Let_def)
  next
    case False
    then show ?thesis
      using snoc by (simp add: run_checks_snoc check_step_def window_check_other Let_def)
  qed
qed


lemma snd_check_step_subset:
  "set (snd (check_step limit acc c)) \<subseteq> insert c (set (snd acc))"
  by (auto simp add: check_step_def Let_def)

lemma admitted_subset_calls: "set (snd (run_checks limit calls)) \<subseteq> set calls"
proof (induction calls rule: rev_induct)
  case Nil
  then show ?case by (simp add: run_checks_Nil)
next
  case (snoc c calls)
  then show ?case
    using snd_check_step_subset [of limit "run_checks limit calls" c]
    by (auto simp add: run_checks_snoc)
qed

lemma admitted_times_subset:
  "t \<in> set (admitted_times sid (snd (run_checks limit calls))) \<Longrightarrow> t \<in> snd ` set calls"
  using admitted_subset_calls [of limit calls]
  by (auto simp add: admitted_times_def)

lemma filter_window_admitted:
  assumes "sorted (map snd calls)" and "\<forall>t \<in> snd ` set calls. t \<le> now"
  shows "filter (\<lambda>t. now - t < 1) (window (fst (run_checks limit calls)) sid) =
         filter (\<lambda>t. now - t < 1) (admitted_times sid (snd (run_checks limit calls)))"
  using assms
proof (induction calls arbitrary: now rule: rev_induct)
  case Nil
  then show ?case by (simp add: run_checks_Nil window_def admitted_times_def)
next
  case (snoc c calls)
  let ?st = "fst (run_checks limit calls)"
  let ?adm = "snd (run_checks limit calls)"
  have srt: "sorted (map snd calls)" and le_c: "\<forall>t \<in> snd ` set calls. t \<le> snd c"
    using snoc.prems(1) by (auto simp add: sorted_append)
  have c_now: "snd c \<le> now" using snoc.prems(2) by simp
  have le_now: "\<forall>t \<in> snd ` set calls. t \<le> now" using snoc.prems(2) by simp
  have IH_now: "filter (\<lambda>t. now - t < 1) (window ?st sid) =
                filter (\<lambda>t. now - t < 1) (admitted_times sid ?adm)"
    using snoc.IH [OF srt le_now] .
  show ?case
  proof (cases "fst c = sid")
    case False
    then show ?thesis
      using IH_now
      by (simp add: run_checks_snoc check_step_def window_check_other admitted_times_def Let_def)
  next
    case True
    have imp: "\<And>t. now - t < 1 \<Longrightarrow> snd c - t < 1" using c_now by linarith
    have prune: "filter (\<lambda>t. now - t < 1) (filter (\<lambda>t. snd c - t < 1) (window ?st sid)) =
                 filter (\<lambda>t. now - t < 1) (window ?st sid)"
      using imp by (auto intro: filter_cong)
    show ?thesis
      using True IH_now prune
      by (simp add: run_checks_snoc check_step_def window_check_same check_allowed
            admitted_times_def Let_def)
  qed
qed


lemma trailing_window_bound:
  assumes "0 \<le> limit" and "sorted (map snd calls)"
  shows "int (length (filter (in_trailing_window T)
            (admitted_times sid (snd (run_checks limit calls))))) \<le> limit"
  using assms(2)
proof (induction calls rule: rev_induct)
  case Nil
  then show ?case using assms(1) by (simp add: run_checks_Nil admitted_times_def)
next
  case (snoc c calls)
  let ?st = "fst (run_checks limit calls)"
  let ?adm = "admitted_times sid (snd (run_checks limit calls))"
  have srt: "sorted (map snd calls)" and le_c: "\<forall>t \<in> snd ` set calls. t \<le> snd c"
    using snoc.prems by (auto simp add: sorted_append)
  have IH: "int (length (filter (in_trailing_window T) ?adm)) \<le> limit"
    using snoc.IH [OF srt] .
  show ?case
  proof (cases "fst c = sid \<and> fst (fst (check ?st sid limit (snd c))) \<and> in_trailing_window T (snd c)")
    case False
    then show ?thesis
      using IH
      by (auto simp add: run_checks_snoc check_step_def admitted_times_def Let_def)
  next
    case True
    have adm_le: "\<forall>t \<in> set ?adm. t \<le> snd c"
      using le_c admitted_times_subset [of _ sid limit calls] by blast
    have "filter (in_trailing_window T) ?adm =
          filter (in_trailing_window T) (filter (\<lambda>t. snd c - t < 1) ?adm)"
    proof -
      have "\<And>t. t \<in> set ?adm \<Longrightarrow> in_trailing_window T t \<Longrightarrow> snd c - t < 1"
        using True by (auto simp add: in_trailing_window_def)
      then show ?thesis by (auto intro: filter_cong)
    qed
    then have "length (filter (in_trailing_window T) ?adm) \<le>
               length (filter (\<lambda>t. snd c - t < 1) ?adm)"
      by (metis length_filter_le)
    also have "filter (\<lambda>t. snd c - t < 1) ?adm =
               filter (\<lambda>t. snd c - t < 1) (window ?st sid)"
      using filter_window_admitted [OF srt le_c, of limit sid] by simp
    finally have "int (length (filter (in_trailing_window T) ?adm)) < limit"
      using True by (simp add: check_allowed)
    then show ?thesis
      using True
      by (simp add: run_checks_snoc check_step_def admitted_times_def Let_def)
  qed
qed


text \<open>
  Claim C3, as the code has it. With a non-negative configured limit, starting from empty
  windows: after every call (every prefix of the run, whatever the clock readings) each
  session's window holds at most \<open>limit\<close> timestamps; when the clock readings of successive
  calls never decrease, then for every instant \<open>T\<close> and session at most \<open>limit\<close> admitted
  requests have a timestamp \<open>t\<close> with \<open>t \<le> T\<close> and \<open>T - t < 1\<close>; and a rejected call
  leaves the session's window equal to its pruned old window (no timestamp is recorded) and
  the other sessions untouched.
\<close>

theorem rate_window_bounded:
  assumes "0 \<le> limit"
  shows "(\<forall>k sid. int (length (window (fst (run_checks limit (take k calls))) sid)) \<le> limit) \<and>
         (sorted (map snd calls) \<longrightarrow>
            (\<forall>T sid. int (length (filter (in_trailing_window T)
              (admitted_times sid (snd (run_checks limit calls))))) \<le> limit)) \<and>
         (\<forall>st sid now. \<not> fst (fst (check st sid limit now)) \<longrightarrow>
              window (snd (check st sid limit now)) sid =
                filter (\<lambda>t. now - t < 1) (window st sid) \<and>
              (\<forall>sid'. sid' \<noteq> sid \<longrightarrow> window (snd (check st sid limit now)) sid' = window st sid'))"
proof (intro conjI allI impI)
  fix k sid
  show "int (length (window (fst (run_checks limit (take k calls))) sid)) \<le> limit"
    using assms by (rule window_length_inv)
next
  fix T sid
  assume "sorted (map snd calls)"
  with assms show "int (length (filter (in_trailing_window T)
          (admitted_times sid (snd (run_checks limit calls))))) \<le> limit"
    by (rule trailing_window_bound)
next
  fix st sid now
  assume "\<not> fst (fst (check st sid limit now))"
  then show "window (snd (check st sid limit now)) sid =
      filter (\<lambda>t. now - t < 1) (window st sid)"
    by (simp add: window_check_same check_allowed Let_def)
next
  fix st :: rate_state and sid sid' :: string and now :: real
  assume "sid' \<noteq> sid"
  then show "window (snd (check st sid limit now)) sid' = window st sid'"
    by (rule window_check_other)
qed

theorem rate_window_bounded_witness:
  "(0::int) \<le> 2 \<and>
   sorted (map snd [(''a'', 0::real), (''a'', 0.5), (''b'', 0.55), (''a'', 0.6), (''a'', 1.2)]) \<and>
   snd (run_checks 2 [(''a'', 0), (''a'', 0.5), (''b'', 0.55), (''a'', 0.6), (''a'', 1.2)]) =
     [(''a'', 0), (''a'', 0.5), (''b'', 0.55), (''a'', 1.2)] \<and>
   window (fst (run_checks 2 [(''a'', 0), (''a'', 0.5), (''b'', 0.55), (''a'', 0.6), (''a'', 1.2)])) ''a'' =
     [0.5, 1.2] \<and>
   int (length (window (fst (run_checks 2
      (take 4 [(''a'', 0), (''a'', 0.5), (''b'', 0.55), (''a'', 0.6), (''a'', 1.2)]))) ''a'')) \<le> 2 \<and>
   int (length (filter (in_trailing_window 1.3) (admitted_times ''a''
      (snd (run_checks 2 [(''a'', 0), (''a'', 0.5), (''b'', 0.55), (''a'', 0.6), (''a'', 1.2)]))))) \<le> 2 \<and>
   \<not> fst (fst (check [''a'' \<mapsto> [0, 0.5]] ''a'' 2 0.6)) \<and>
   window (snd (check [''a'' \<mapsto> [0, 0.5]] ''a'' 2 0.6)) ''a'' = [0, 0.5]"
proof -
  let ?calls = "[(''a'', 0::real), (''a'', 0.5), (''b'', 0.55), (''a'', 0.6), (''a'', 1.2)]"
  have h1: "(0::int) \<le> 2" by simp
  have h2: "sorted (map snd ?calls)" by simp
  have rej: "\<not> fst (fst (check [''a'' \<mapsto> [0, 0.5]] ''a'' 2 0.6))"
    by (simp add: check_def window_def Let_def)
  have run: "snd (run_checks 2 ?calls) = [(''a'', 0), (''a'', 0.5), (''b'', 0.55), (''a'', 1.2)]"
      "window (fst (run_checks 2 ?calls)) ''a'' = [0.5, 1.2]"
    by (simp_all add: run_checks_def check_step_def check_def window_def Let_def)
  note inst = rate_window_bounded [OF h1, of ?calls]
  from inst have a: "int (length (window (fst (run_checks 2 (take 4 ?calls))) ''a'')) \<le> 2"
    by blast
  from inst h2 have b: "int (length (filter (in_trailing_window 1.3) (admitted_times ''a''
      (snd (run_checks 2 ?calls))))) \<le> 2"
    by blast
  from inst rej have c: "window (snd (check [''a'' \<mapsto> [0, 0.5]] ''a'' 2 0.6)) ''a'' =
      filter (\<lambda>t. 0.6 - t < 1) (window [''a'' \<mapsto> [0, 0.5]] ''a'')"
    by blast
  show ?thesis
    using h1 h2 rej a b c run by (simp add: window_def)
qed

text \<open>
  Claim C3 as stated fails when the wall clock is set back between calls. With limit 2 and
  the readings 0.6, 0.9, 2, 1 for one session every call is admitted (at 2 both earlier
  entries are pruned, at 1 the entry 2 is kept and counts once), so three admitted requests
  have their timestamps in the trailing window of the instant 1.5.
\<close>

theorem rate_window_clock_back_counterexample:
  "snd (run_checks 2 [(''a'', 0.6), (''a'', 0.9), (''a'', 2), (''a'', 1)]) =
     [(''a'', 0.6), (''a'', 0.9), (''a'', 2), (''a'', 1)] \<and>
   filter (in_trailing_window 1.5) (admitted_times ''a''
      (snd (run_checks 2 [(''a'', 0.6), (''a'', 0.9), (''a'', 2), (''a'', 1)]))) = [0.6, 0.9, 1] \<and>
   \<not> int (length (filter (in_trailing_window 1.5) (admitted_times ''a''
      (snd (run_checks 2 [(''a'', 0.6), (''a'', 0.9), (''a'', 2), (''a'', 1)]))))) \<le> 2"
proof -
  have run: "snd (run_checks 2 [(''a'', 0.6), (''a'', 0.9), (''a'', 2), (''a'', 1)]) =
     [(''a'', 0.6), (''a'', 0.9), (''a'', 2), (''a'', 1)]"
    by (simp add: run_checks_def check_step_def check_def window_def Let_def)
  show ?thesis
    unfolding run by (simp add: admitted_times_def in_trailing_window_def)
qed

subsection \<open>DetectionValidator: what is kept\<close>

lemma bbox_of_SomeD:
  "bbox_of d = Some (x1, y1, x2, y2) \<Longrightarrow>
     \<exists>kvs. d = PDict kvs \<and> map_of kvs ''bbox'' = Some (PList [PFloat x1, PFloat y1, PFloat x2, PFloat y2])"
  by (auto simp add: bbox_of_def split: pyval.splits option.splits list.splits)

lemma bbox_of_PDict:
  "map_of kvs ''bbox'' = Some (PList [PFloat x1, PFloat y1, PFloat x2, PFloat y2]) \<Longrightarrow>
     bbox_of (PDict kvs) = Some (x1, y1, x2, y2)"
  by (simp add: bbox_of_def)

lemma acceptedD:
  assumes "accepted h w d"
  obtains kvs c x1 y1 x2 y2 where
    "d = PDict kvs" "map_of kvs ''confidence'' = Some (PFloat c)"
    "map_of kvs ''bbox'' = Some (PList [PFloat x1, PFloat y1, PFloat x2, PFloat y2])"
    "MIN_CONFIDENCE \<le> c" "x1 < x2" "y1 < y2" "check_bounds h w x1 y1 x2 y2 = Unchanged"
    "MIN_BBOX_AREA \<le> (x2 - x1) * (y2 - y1)"
    "filter (\<lambda>field. map_of kvs field = None) required_fields = []"
proof -
  from assms obtain kvs where d: "d = PDict kvs"
    by (cases d) (simp_all add: accepted_def)
  from assms d obtain c where c: "map_of kvs ''confidence'' = Some (PFloat c)"
    by (auto simp add: accepted_def split: option.splits pyval.splits)
  from assms d c obtain x1 y1 x2 y2 where b: "bbox_of d = Some (x1, y1, x2, y2)"
    by (auto simp add: accepted_def split: option.splits)
  from bbox_of_SomeD [OF b] d
  have b': "map_of kvs ''bbox'' = Some (PList [PFloat x1, PFloat y1, PFloat x2, PFloat y2])"
    by simp
  from assms d c b have "MIN_CONFIDENCE \<le> c \<and> x1 < x2 \<and> y1 < y2 \<and>
      check_bounds h w x1 y1 x2 y2 = Unchanged \<and> MIN_BBOX_AREA \<le> (x2 - x1) * (y2 - y1) \<and>
      filter (\<lambda>field. map_of kvs field = None) required_fields = []"
    by (simp add: accepted_def)
  with d c b' that show thesis by blast
qed

lemma acceptedI:
  assumes "map_of kvs ''confidence'' = Some (PFloat c)"
    "map_of kvs ''bbox'' = Some (PList [PFloat x1, PFloat y1, PFloat x2, PFloat y2])"
    "MIN_CONFIDENCE \<le> c" "x1 < x2" "y1 < y2" "check_bounds h w x1 y1 x2 y2 = Unchanged"
    "MIN_BBOX_AREA \<le> (x2 - x1) * (y2 - y1)"
    "filter (\<lambda>field. map_of kvs field = None) required_fields = []"
  shows "accepted h w (PDict kvs)"
  using assms by (simp add: accepted_def bbox_of_PDict)

lemma check_bounds_Unchanged_iff:
  "check_bounds h w x1 y1 x2 y2 = Unchanged \<longleftrightarrow>
     - real_of_int w * 0.05 \<le> x1 \<and> - real_of_int h * 0.05 \<le> y1 \<and>
     x2 \<le> real_of_int w * 1.05 \<and> y2 \<le> real_of_int h * 1.05"
  by (auto simp add: check_bounds_def Let_def not_less)

lemma check_bounds_ClampedD:
  assumes "check_bounds h w x1 y1 x2 y2 = Clamped a b c d" and "x1 < x2" and "y1 < y2"
  shows "a = max 0 (min x1 (real_of_int w)) \<and> b = max 0 (min y1 (real_of_int h)) \<and>
         c = max 0 (min x2 (real_of_int w)) \<and> d = max 0 (min y2 (real_of_int h)) \<and>
         0 < w \<and> 0 < h \<and> 0 \<le> a \<and> a \<le> c \<and> c \<le> real_of_int w \<and>
         0 \<le> b \<and> b \<le> d \<and> d \<le> real_of_int h"
proof -
  from assms(1) have eqs: "a = max 0 (min x1 (real_of_int w))" "b = max 0 (min y1 (real_of_int h))"
      "c = max 0 (min x2 (real_of_int w))" "d = max 0 (min y2 (real_of_int h))"
    and band: "- real_of_int w * 0.1 \<le> x1" "- real_of_int h * 0.1 \<le> y1"
      "x2 \<le> real_of_int w * 1.1" "y2 \<le> real_of_int h * 1.1"
    by (auto simp add: check_bounds_def Let_def not_less split: if_splits)
  from band assms(2,3) have "0 < real_of_int w" "0 < real_of_int h" by linarith+
  then have pos: "0 < w" "0 < h" by simp_all
  with eqs assms(2,3) show ?thesis by (auto simp add: max_def min_def)
qed

lemma check_bounds_inside:
  assumes "0 \<le> a" "c \<le> real_of_int w" "0 \<le> b" "d \<le> real_of_int h" "0 < w" "0 < h"
  shows "check_bounds h w a b c d = Unchanged"
proof -
  have "0 < real_of_int w" "0 < real_of_int h" using assms by simp_all
  then show ?thesis
    using assms(1-4) by (simp add: check_bounds_Unchanged_iff)
qed


lemma validated_accepted:
  assumes "MIN_CONFIDENCE \<le> c" "x1 < x2" "y1 < y2" "check_bounds h w x1 y1 x2 y2 = Unchanged"
    "MIN_BBOX_AREA \<le> (x2 - x1) * (y2 - y1)"
    "filter (\<lambda>field. map_of det field = None) required_fields = []"
  shows "accepted h w (PDict (AList.update ''confidence'' (PFloat c)
           (AList.update ''bbox'' (PList [PFloat x1, PFloat y1, PFloat x2, PFloat y2]) det)))"
proof (rule acceptedI [where c = c and ?x1.0 = x1 and ?y1.0 = y1 and ?x2.0 = x2 and ?y2.0 = y2])
  show "filter (\<lambda>field. map_of (AList.update ''confidence'' (PFloat c)
          (AList.update ''bbox'' (PList [PFloat x1, PFloat y1, PFloat x2, PFloat y2]) det)) field = None)
        required_fields = []"
    using assms(6) by (simp add: update_conv' required_fields_def split: if_splits)
qed (use assms in \<open>simp_all add: update_conv'\<close>)

lemma finish_detection_valid:
  "valid_detections (finish_detection h w i det c x1 y1 x2 y2 s) = valid_detections s \<or>
   (valid_detections (finish_detection h w i det c x1 y1 x2 y2 s) =
      valid_detections s @ [PDict (AList.update ''confidence'' (PFloat c)
           (AList.update ''bbox'' (PList [PFloat x1, PFloat y1, PFloat x2, PFloat y2]) det))] \<and>
    MIN_BBOX_AREA \<le> (x2 - x1) * (y2 - y1) \<and>
    filter (\<lambda>field. map_of det field = None) required_fields = [])"
  by (simp add: finish_detection_def Let_def warn_def)

lemma validate_one_valid:
  "valid_detections (validate_one pf h w i d s) = valid_detections s \<or>
   (\<exists>d'. valid_detections (validate_one pf h w i d s) = valid_detections s @ [d'] \<and> accepted h w d')"
proof (cases d)
  case (PDict det)
  let ?conf = "dict_get det ''confidence'' (PFloat 0)"
  show ?thesis
  proof (cases "is_number ?conf \<and> \<not> num_val ?conf < MIN_CONFIDENCE")
    case False
    then show ?thesis using PDict by (auto simp add: validate_one_def warn_def Let_def)
  next
    case conf: True
    show ?thesis
    proof (cases "dict_get det ''bbox'' (PList [])")
      case (PList bbox)
      show ?thesis
      proof (cases "\<exists>x1 y1 x2 y2. map (to_float pf) bbox = [Some x1, Some y1, Some x2, Some y2]")
        case False
        then show ?thesis
          using PDict conf PList
          by (auto simp add: validate_one_def warn_def Let_def split: list.splits option.splits)
      next
        case True
        then obtain x1 y1 x2 y2 where fl: "map (to_float pf) bbox = [Some x1, Some y1, Some x2, Some y2]"
          by auto
        have "length (map (to_float pf) bbox) = 4" unfolding fl by simp
        then have len: "length bbox = 4" by simp
        show ?thesis
        proof (cases "x1 \<ge> x2 \<or> y1 \<ge> y2")
          case True
          then show ?thesis
            using PDict conf PList fl len
            by (simp add: validate_one_def warn_def Let_def)
        next
          case ord: False
          show ?thesis
          proof (cases "check_bounds h w x1 y1 x2 y2")
            case OutOfBounds
            then show ?thesis
              using PDict conf PList fl len ord
              by (simp add: validate_one_def warn_def Let_def)
          next
            case Unchanged
            have v: "validate_one pf h w i d s =
                finish_detection h w i det (num_val ?conf) x1 y1 x2 y2 s"
              using PDict conf PList fl len ord Unchanged
              by (simp add: validate_one_def Let_def)
            from finish_detection_valid [of h w i det "num_val ?conf" x1 y1 x2 y2 s]
            show ?thesis
            proof (elim disjE conjE)
              assume "valid_detections (finish_detection h w i det (num_val ?conf) x1 y1 x2 y2 s) =
                  valid_detections s"
              then show ?thesis using v by simp
            next
              assume kept: "valid_detections (finish_detection h w i det (num_val ?conf) x1 y1 x2 y2 s) =
                  valid_detections s @
                  [PDict (AList.update ''confidence'' (PFloat (num_val ?conf))
                    (AList.update ''bbox'' (PList [PFloat x1, PFloat y1, PFloat x2, PFloat y2]) det))]"
                and area: "MIN_BBOX_AREA \<le> (x2 - x1) * (y2 - y1)"
                and req: "filter (\<lambda>field. map_of det field = None) required_fields = []"
              have "accepted h w (PDict (AList.update ''confidence'' (PFloat (num_val ?conf))
                    (AList.update ''bbox'' (PList [PFloat x1, PFloat y1, PFloat x2, PFloat y2]) det)))"
                using conf ord Unchanged area req by (intro validated_accepted) simp_all
              then show ?thesis using kept v by simp
            qed
          next
            case (Clamped a b c e)
            note cl = check_bounds_ClampedD [OF Clamped]
            have v: "validate_one pf h w i d s =
                finish_detection h w i det (num_val ?conf) a b c e (warn (BboxClamped i) s)"
              using PDict conf PList fl len ord Clamped
              by (simp add: validate_one_def Let_def)
            have vs: "valid_detections (warn (BboxClamped i) s) = valid_detections s"
              by (simp add: warn_def)
            have "x1 < x2" "y1 < y2" using ord by simp_all
            from cl [OF this] have facts: "0 \<le> a" "a \<le> c" "c \<le> real_of_int w" "0 \<le> b" "b \<le> e"
              "e \<le> real_of_int h" "0 < w" "0 < h"
              by blast+
            have unch: "check_bounds h w a b c e = Unchanged"
              using facts by (intro check_bounds_inside) auto
            have strict: "MIN_BBOX_AREA \<le> (c - a) * (e - b) \<Longrightarrow> a < c \<and> b < e"
            proof -
              assume "MIN_BBOX_AREA \<le> (c - a) * (e - b)"
              then have pos: "0 < (c - a) * (e - b)" by (simp add: MIN_BBOX_AREA_def)
              have "c - a \<noteq> 0" "e - b \<noteq> 0" using pos by auto
              with facts show ?thesis by auto
            qed
            from finish_detection_valid [of h w i det "num_val ?conf" a b c e "warn (BboxClamped i) s"]
            show ?thesis
            proof (elim disjE conjE)
              assume "valid_detections (finish_detection h w i det (num_val ?conf) a b c e
                  (warn (BboxClamped i) s)) = valid_detections (warn (BboxClamped i) s)"
              then show ?thesis using v vs by simp
            next
              assume kept: "valid_detections (finish_detection h w i det (num_val ?conf) a b c e
                  (warn (BboxClamped i) s)) = valid_detections (warn (BboxClamped i) s) @
                  [PDict (AList.update ''confidence'' (PFloat (num_val ?conf))
                    (AList.update ''bbox'' (PList [PFloat a, PFloat b, PFloat c, PFloat e]) det))]"
                and area: "MIN_BBOX_AREA \<le> (c - a) * (e - b)"
                and req: "filter (\<lambda>field. map_of det field = None) required_fields = []"
              from strict [OF area] have "a < c" "b < e" by simp_all
              then have "accepted h w (PDict (AList.update ''confidence'' (PFloat (num_val ?conf))
                    (AList.update ''bbox'' (PList [PFloat a, PFloat b, PFloat c, PFloat e]) det)))"
                using conf unch area req by (intro validated_accepted) simp_all
              then show ?thesis using kept v vs by simp
            qed
          qed
        qed
      qed
    qed (use PDict conf in \<open>simp_all add: validate_one_def warn_def Let_def\<close>)
  qed
qed (simp_all add: validate_one_def warn_def)


lemma validate_one_accepted:
  assumes "accepted h w d"
  shows "valid_detections (validate_one pf h w i d s) = valid_detections s @ [d] \<and>
         (\<exists>ws. warnings (validate_one pf h w i d s) = warnings s @ ws \<and> only_size_warnings ws)"
proof -
  from assms obtain kvs c x1 y1 x2 y2 where
    d: "d = PDict kvs" and c: "map_of kvs ''confidence'' = Some (PFloat c)"
    and b: "map_of kvs ''bbox'' = Some (PList [PFloat x1, PFloat y1, PFloat x2, PFloat y2])"
    and cmin: "MIN_CONFIDENCE \<le> c" and ord: "x1 < x2" "y1 < y2"
    and unch: "check_bounds h w x1 y1 x2 y2 = Unchanged"
    and area: "MIN_BBOX_AREA \<le> (x2 - x1) * (y2 - y1)"
    and req: "filter (\<lambda>field. map_of kvs field = None) required_fields = []"
    by (rule acceptedD)
  have upd: "AList.update ''confidence'' (PFloat c)
      (AList.update ''bbox'' (PList [PFloat x1, PFloat y1, PFloat x2, PFloat y2]) kvs) = kvs"
    using b c by (simp add: update_triv)
  have v: "validate_one pf h w i d s = finish_detection h w i kvs c x1 y1 x2 y2 s"
    using d c b cmin ord unch by (simp add: validate_one_def dict_get_def Let_def)
  let ?ratio = "if w * h > 0 then (x2 - x1) * (y2 - y1) / real_of_int (w * h) else 0"
  have f: "finish_detection h w i kvs c x1 y1 x2 y2 s =
      (if ?ratio > MAX_BBOX_SIZE_RATIO then warn (BboxTooLarge i ?ratio) s else s)
        \<lparr>valid_detections := valid_detections s @ [d]\<rparr>"
    using area req upd d by (simp add: finish_detection_def Let_def warn_def)
  show ?thesis
  proof (cases "?ratio > MAX_BBOX_SIZE_RATIO")
    case True
    have "warnings (validate_one pf h w i d s) = warnings s @ [BboxTooLarge i ?ratio]"
      unfolding v f using True by (simp add: warn_def)
    moreover have "only_size_warnings [BboxTooLarge i ?ratio]"
      by (simp add: only_size_warnings_def)
    moreover have "valid_detections (validate_one pf h w i d s) = valid_detections s @ [d]"
      unfolding v f by simp
    ultimately show ?thesis by blast
  next
    case False
    have "warnings (validate_one pf h w i d s) = warnings s @ []"
      unfolding v f using False by simp
    moreover have "only_size_warnings []"
      by (simp add: only_size_warnings_def)
    moreover have "valid_detections (validate_one pf h w i d s) = valid_detections s @ [d]"
      unfolding v f by simp
    ultimately show ?thesis by blast
  qed
qed

lemma validate_loop_valid:
  "list_all (accepted h w) (valid_detections s) \<Longrightarrow>
     list_all (accepted h w) (valid_detections (validate_loop pf h w i ds s))"
proof (induction ds arbitrary: i s)
  case Nil
  then show ?case by simp
next
  case (Cons d ds)
  have "list_all (accepted h w) (valid_detections (validate_one pf h w i d s))"
    using validate_one_valid [of pf h w i d s] Cons.prems by auto
  then show ?case using Cons.IH by simp
qed

lemma validate_loop_accepted:
  "list_all (accepted h w) ds \<Longrightarrow>
     valid_detections (validate_loop pf h w i ds s) = valid_detections s @ ds \<and>
     (\<exists>ws. warnings (validate_loop pf h w i ds s) = warnings s @ ws \<and> only_size_warnings ws)"
proof (induction ds arbitrary: i s)
  case Nil
  have "warnings s = warnings s @ [] \<and> only_size_warnings []"
    by (simp add: only_size_warnings_def)
  then show ?case by auto
next
  case (Cons d ds)
  from Cons.prems have acc: "accepted h w d" and rest: "list_all (accepted h w) ds" by simp_all
  let ?s1 = "validate_one pf h w i d s"
  from validate_one_accepted [OF acc, of pf i s] obtain ws1 where
    v1: "valid_detections ?s1 = valid_detections s @ [d]"
    and w1: "warnings ?s1 = warnings s @ ws1" "only_size_warnings ws1"
    by blast
  from Cons.IH [OF rest, of "Suc i" ?s1] obtain ws2 where
    v2: "valid_detections (validate_loop pf h w (Suc i) ds ?s1) = valid_detections ?s1 @ ds"
    and w2: "warnings (validate_loop pf h w (Suc i) ds ?s1) = warnings ?s1 @ ws2"
      "only_size_warnings ws2"
    by blast
  have "only_size_warnings (ws1 @ ws2)"
    using w1(2) w2(2) by (simp add: only_size_warnings_def)
  moreover have "warnings (validate_loop pf h w i (d # ds) s) = warnings s @ (ws1 @ ws2)"
    using w1(1) w2(1) by simp
  moreover have "valid_detections (validate_loop pf h w i (d # ds) s) = valid_detections s @ d # ds"
    using v1 v2 by simp
  ultimately show ?case by blast
qed

lemma limit_detections_valid:
  "set (valid_detections (limit_detections s)) \<subseteq> set (valid_detections s) \<and>
   length (valid_detections (limit_detections s)) \<le> MAX_DETECTIONS_PER_FRAME"
proof (cases "length (valid_detections s) > MAX_DETECTIONS_PER_FRAME")
  case True
  have "set (take MAX_DETECTIONS_PER_FRAME (sort_key (\<lambda>x. - confidence_key x) (valid_detections s)))
      \<subseteq> set (sort_key (\<lambda>x. - confidence_key x) (valid_detections s))"
    by (rule set_take_subset)
  then show ?thesis using True by (simp add: limit_detections_def Let_def)
next
  case False
  then show ?thesis by (simp add: limit_detections_def)
qed

lemma limit_detections_small:
  "length (valid_detections s) \<le> MAX_DETECTIONS_PER_FRAME \<Longrightarrow> limit_detections s = s"
  by (simp add: limit_detections_def)

lemma validate_run_valid:
  "list_all (accepted h w) (valid_detections (validate_run pf dets [h, w])) \<and>
   length (valid_detections (validate_run pf dets [h, w])) \<le> MAX_DETECTIONS_PER_FRAME"
proof (cases "truthy dets \<and> (\<exists>ds. dets = PList ds)")
  case False
  then show ?thesis
    by (cases dets) (simp_all add: validate_run_def init_vstate_def warn_def)
next
  case True
  then obtain ds where ds: "dets = PList ds" and t: "truthy dets" by blast
  let ?s = "validate_loop pf h w 0 ds init_vstate"
  have run: "validate_run pf dets [h, w] = limit_detections ?s"
    using ds t by (simp add: validate_run_def)
  have "list_all (accepted h w) (valid_detections ?s)"
    by (rule validate_loop_valid) (simp add: init_vstate_def)
  then show ?thesis
    using limit_detections_valid [of ?s] unfolding run
    by (auto simp add: list_all_iff)
qed


lemma fst_validate_detections:
  "fst (validate_detections pf dets shape) = valid_detections (validate_run pf dets shape)"
  by (simp add: validate_detections_def Let_def)

lemma snd_validate_detections:
  "snd (validate_detections pf dets shape) = warnings (validate_run pf dets shape)"
  by (simp add: validate_detections_def Let_def)

lemma revalidate_accepted:
  assumes "list_all (accepted h w) ks" and "length ks \<le> MAX_DETECTIONS_PER_FRAME"
  shows "fst (validate_detections pf (PList ks) [h, w]) = ks \<and>
         only_size_warnings (snd (validate_detections pf (PList ks) [h, w]))"
proof (cases "ks = []")
  case True
  then show ?thesis
    by (simp add: fst_validate_detections snd_validate_detections validate_run_def init_vstate_def only_size_warnings_def)
next
  case False
  let ?s = "validate_loop pf h w 0 ks init_vstate"
  from validate_loop_accepted [OF assms(1), of pf 0 init_vstate] obtain ws where
    v: "valid_detections ?s = ks" and w: "warnings ?s = ws" "only_size_warnings ws"
    by (auto simp add: init_vstate_def)
  have "limit_detections ?s = ?s"
    using assms(2) v by (simp add: limit_detections_small)
  then have "validate_run pf (PList ks) [h, w] = ?s"
    using False by (simp add: validate_run_def)
  then show ?thesis using v w by (simp add: fst_validate_detections snd_validate_detections)
qed

text \<open>
  Claim C7. Re-validating the kept list against the same frame shape returns the same list
  (nothing is rejected, every bbox and confidence is as it was) and the warnings of the
  second pass hold no clamping and no rejection, only size notes; the same holds for each
  kept detection validated alone.
\<close>

theorem sanitization_idempotent:
  "fst (validate_detections pf (PList (fst (validate_detections pf dets shape))) shape) =
     fst (validate_detections pf dets shape) \<and>
   only_size_warnings (snd (validate_detections pf (PList (fst (validate_detections pf dets shape))) shape)) \<and>
   (\<forall>d \<in> set (fst (validate_detections pf dets shape)).
      fst (validate_detections pf (PList [d]) shape) = [d] \<and>
      only_size_warnings (snd (validate_detections pf (PList [d]) shape)))"
proof (cases "\<exists>h w. shape = [h, w]")
  case True
  then obtain h w where shape: "shape = [h, w]" by blast
  let ?ks = "fst (validate_detections pf dets shape)"
  have ks: "list_all (accepted h w) ?ks" "length ?ks \<le> MAX_DETECTIONS_PER_FRAME"
    using validate_run_valid [of h w pf dets] unfolding shape
    by (simp_all add: fst_validate_detections snd_validate_detections)
  have one: "fst (validate_detections pf (PList [d]) shape) = [d] \<and>
      only_size_warnings (snd (validate_detections pf (PList [d]) shape))" if "d \<in> set ?ks" for d
  proof -
    have "list_all (accepted h w) [d]" using ks(1) that by (simp add: list_all_iff)
    moreover have "length [d] \<le> MAX_DETECTIONS_PER_FRAME" by (simp add: MAX_DETECTIONS_PER_FRAME_def)
    ultimately show ?thesis unfolding shape by (rule revalidate_accepted)
  qed
  show ?thesis
    using revalidate_accepted [OF ks [unfolded shape], of pf] one unfolding shape by blast
next
  case False
  have "validate_run pf dets shape = init_vstate \<or> validate_run pf dets shape = warn BadFrameShape init_vstate
      \<or> validate_run pf dets shape = warn NotAList init_vstate"
    using False
    by (cases dets) (auto simp add: validate_run_def split: list.splits)
  then have "fst (validate_detections pf dets shape) = []"
    by (auto simp add: fst_validate_detections snd_validate_detections init_vstate_def warn_def)
  then show ?thesis
    by (simp add: fst_validate_detections snd_validate_detections validate_run_def init_vstate_def only_size_warnings_def)
qed

lemmas validate_eval = validate_detections_def validate_run_def validate_one_def
  finish_detection_def check_bounds_def dict_get_def warn_def init_vstate_def
  limit_detections_def MIN_CONFIDENCE_def MIN_BBOX_AREA_def MAX_DETECTIONS_PER_FRAME_def
  MAX_BBOX_SIZE_RATIO_def required_fields_def Let_def

theorem sanitization_idempotent_witness:
  "validate_detections (\<lambda>s. None)
     (PList [PDict [(''bbox'', PList [PInt (-40), PInt 10, PFloat 100.5, PInt 100]),
        (''confidence'', PInt 1), (''class_id'', PInt 0), (''class_name'', PStr ''car''),
        (''track_id'', PInt 3)]]) [480, 640] =
     ([PDict [(''bbox'', PList [PFloat 0, PFloat 10, PFloat 100.5, PFloat 100]),
        (''confidence'', PFloat 1), (''class_id'', PInt 0), (''class_name'', PStr ''car''),
        (''track_id'', PInt 3)]], [BboxClamped 0]) \<and>
   fst (validate_detections (\<lambda>s. None)
     (PList [PDict [(''bbox'', PList [PFloat 0, PFloat 10, PFloat 100.5, PFloat 100]),
        (''confidence'', PFloat 1), (''class_id'', PInt 0), (''class_name'', PStr ''car''),
        (''track_id'', PInt 3)]]) [480, 640]) =
     [PDict [(''bbox'', PList [PFloat 0, PFloat 10, PFloat 100.5, PFloat 100]),
        (''confidence'', PFloat 1), (''class_id'', PInt 0), (''class_name'', PStr ''car''),
        (''track_id'', PInt 3)]] \<and>
   only_size_warnings (snd (validate_detections (\<lambda>s. None)
     (PList [PDict [(''bbox'', PList [PFloat 0, PFloat 10, PFloat 100.5, PFloat 100]),
        (''confidence'', PFloat 1), (''class_id'', PInt 0), (''class_name'', PStr ''car''),
        (''track_id'', PInt 3)]]) [480, 640]))"
proof -
  let ?raw = "PDict [(''bbox'', PList [PInt (-40), PInt 10, PFloat 100.5, PInt 100]),
        (''confidence'', PInt 1), (''class_id'', PInt 0), (''class_name'', PStr ''car''),
        (''track_id'', PInt 3)]"
  let ?kept = "PDict [(''bbox'', PList [PFloat 0, PFloat 10, PFloat 100.5, PFloat 100]),
        (''confidence'', PFloat 1), (''class_id'', PInt 0), (''class_name'', PStr ''car''),
        (''track_id'', PInt 3)]"
  have first: "validate_detections (\<lambda>s. None) (PList [?raw]) [480, 640] = ([?kept], [BboxClamped 0])"
    by (simp add: validate_eval)
  from sanitization_idempotent [of "\<lambda>s. None" "PList [?raw]" "[480, 640]"]
  have "fst (validate_detections (\<lambda>s. None) (PList [?kept]) [480, 640]) = [?kept] \<and>
        only_size_warnings (snd (validate_detections (\<lambda>s. None) (PList [?kept]) [480, 640]))"
    unfolding first by simp
  with first show ?thesis by simp
qed

subsection \<open>DetectionValidator: the bounds check\<close>






















subsection \<open>DetectionValidator: confidence\<close>

lemma validate_one_low_confidence:
  "low_confidence d \<Longrightarrow>
     validate_one pf h w i d s = s\<lparr>rejected_low_confidence := rejected_low_confidence s + 1\<rparr>"
  by (cases d) (simp_all add: low_confidence_def validate_one_def Let_def)

lemma validate_one_bad_confidence:
  "\<not> is_number (dict_get det ''confidence'' (PFloat 0)) \<Longrightarrow>
     validate_one pf h w i (PDict det) s =
       s\<lparr>warnings := warnings s @ [BadConfidence i (dict_get det ''confidence'' (PFloat 0))]\<rparr>"
  by (simp add: validate_one_def Let_def warn_def)

lemma finish_detection_warning_index:
  "\<exists>ws. warnings (finish_detection h w i det c x1 y1 x2 y2 s) = warnings s @ ws \<and>
     (\<forall>x \<in> set ws. warning_index x = Some i)"
  by (simp add: finish_detection_def Let_def warn_def)

lemma validate_one_warning_index:
  "\<exists>ws. warnings (validate_one pf h w i d s) = warnings s @ ws \<and>
     (\<forall>x \<in> set ws. warning_index x = Some i)"
proof (cases d)
  case (PDict det)
  let ?conf = "dict_get det ''confidence'' (PFloat 0)"
  show ?thesis
  proof (cases "is_number ?conf \<and> \<not> num_val ?conf < MIN_CONFIDENCE")
    case False
    then show ?thesis using PDict by (auto simp add: validate_one_def warn_def Let_def)
  next
    case conf: True
    show ?thesis
    proof (cases "dict_get det ''bbox'' (PList [])")
      case (PList bbox)
      show ?thesis
      proof (cases "\<exists>x1 y1 x2 y2. map (to_float pf) bbox = [Some x1, Some y1, Some x2, Some y2]")
        case False
        then show ?thesis
          using PDict conf PList
          by (auto simp add: validate_one_def warn_def Let_def split: list.splits option.splits)
      next
        case True
        then obtain x1 y1 x2 y2 where fl: "map (to_float pf) bbox = [Some x1, Some y1, Some x2, Some y2]"
          by auto
        have "length (map (to_float pf) bbox) = 4" unfolding fl by simp
        then have len: "length bbox = 4" by simp
        show ?thesis
        proof (cases "x1 \<ge> x2 \<or> y1 \<ge> y2")
          case True
          then show ?thesis
            using PDict conf PList fl len
            by (simp add: validate_one_def warn_def Let_def)
        next
          case ord: False
          show ?thesis
          proof (cases "check_bounds h w x1 y1 x2 y2")
            case OutOfBounds
            then show ?thesis
              using PDict conf PList fl len ord
              by (simp add: validate_one_def warn_def Let_def)
          next
            case Unchanged
            have v: "validate_one pf h w i d s =
                finish_detection h w i det (num_val ?conf) x1 y1 x2 y2 s"
              using PDict conf PList fl len ord Unchanged
              by (simp add: validate_one_def Let_def)
            show ?thesis unfolding v by (rule finish_detection_warning_index)
          next
            case (Clamped a b c e)
            have v: "validate_one pf h w i d s =
                finish_detection h w i det (num_val ?conf) a b c e (warn (BboxClamped i) s)"
              using PDict conf PList fl len ord Clamped
              by (simp add: validate_one_def Let_def)
            from finish_detection_warning_index [of h w i det "num_val ?conf" a b c e "warn (BboxClamped i) s"]
            obtain ws where ws: "warnings (finish_detection h w i det (num_val ?conf) a b c e
                  (warn (BboxClamped i) s)) = warnings (warn (BboxClamped i) s) @ ws"
              "\<forall>x \<in> set ws. warning_index x = Some i"
              by auto
            have "warnings (validate_one pf h w i d s) = warnings s @ (BboxClamped i # ws)"
              unfolding v ws(1) by (simp add: warn_def)
            moreover have "\<forall>x \<in> set (BboxClamped i # ws). warning_index x = Some i"
              using ws(2) by simp
            ultimately show ?thesis by (intro exI conjI)
          qed
        qed
      qed
    qed (use PDict conf in \<open>simp_all add: validate_one_def warn_def Let_def\<close>)
  qed
qed (simp_all add: validate_one_def warn_def)


lemma validate_one_warning_source:
  "\<exists>ws. warnings (validate_one pf h w i d s) = warnings s @ ws \<and>
     (\<forall>x \<in> set ws. warning_index x = Some i \<and> \<not> low_confidence d)"
proof (cases "low_confidence d")
  case True
  then have "warnings (validate_one pf h w i d s) = warnings s @ []"
    by (simp add: validate_one_low_confidence)
  then show ?thesis by (intro exI [of _ "[]"]) simp
next
  case False
  with validate_one_warning_index [of pf h w i d s] show ?thesis by auto
qed

lemma validate_loop_warning_source:
  "\<exists>ws. warnings (validate_loop pf h w i ds s) = warnings s @ ws \<and>
     (\<forall>x \<in> set ws. \<exists>j < length ds. warning_index x = Some (i + j) \<and> \<not> low_confidence (ds ! j))"
proof (induction ds arbitrary: i s)
  case Nil
  show ?case by simp
next
  case (Cons d ds)
  let ?s1 = "validate_one pf h w i d s"
  from validate_one_warning_source [of pf h w i d s] obtain ws1 where
    w1: "warnings ?s1 = warnings s @ ws1"
    and i1: "\<forall>x \<in> set ws1. warning_index x = Some i \<and> \<not> low_confidence d"
    by auto
  from Cons.IH [of "Suc i" ?s1] obtain ws2 where
    w2: "warnings (validate_loop pf h w (Suc i) ds ?s1) = warnings ?s1 @ ws2"
    and i2: "\<forall>x \<in> set ws2. \<exists>j < length ds. warning_index x = Some (Suc i + j) \<and> \<not> low_confidence (ds ! j)"
    by auto
  have "warnings (validate_loop pf h w i (d # ds) s) = warnings s @ (ws1 @ ws2)"
    using w1 w2 by simp
  moreover have "\<forall>x \<in> set (ws1 @ ws2). \<exists>j < length (d # ds).
      warning_index x = Some (i + j) \<and> \<not> low_confidence ((d # ds) ! j)"
  proof
    fix x assume "x \<in> set (ws1 @ ws2)"
    then consider "x \<in> set ws1" | "x \<in> set ws2" by auto
    then show "\<exists>j < length (d # ds). warning_index x = Some (i + j) \<and> \<not> low_confidence ((d # ds) ! j)"
    proof cases
      case 1
      with i1 have "warning_index x = Some (i + 0) \<and> \<not> low_confidence ((d # ds) ! 0)" by simp
      then show ?thesis by (intro exI [of _ 0]) simp
    next
      case 2
      with i2 obtain j where "j < length ds" "warning_index x = Some (Suc i + j)"
        "\<not> low_confidence (ds ! j)" by auto
      then have "Suc j < length (d # ds) \<and> warning_index x = Some (i + Suc j) \<and>
          \<not> low_confidence ((d # ds) ! Suc j)" by simp
      then show ?thesis by (intro exI [of _ "Suc j"])
    qed
  qed
  ultimately show ?case by (intro exI conjI)
qed

lemma limit_detections_warnings:
  "warnings (limit_detections s) = warnings s \<or>
   (\<exists>m n. warnings (limit_detections s) = warnings s @ [LimitExceeded m n])"
  by (simp add: limit_detections_def Let_def)

lemma silent_low_confidence:
  assumes "j < length ds" and "low_confidence (ds ! j)"
    and "x \<in> set (snd (validate_detections pf (PList ds) [h, w]))"
  shows "warning_index x \<noteq> Some j"
proof (cases "ds = []")
  case True
  with assms(1) show ?thesis by simp
next
  case False
  let ?s = "validate_loop pf h w 0 ds init_vstate"
  have run: "validate_run pf (PList ds) [h, w] = limit_detections ?s"
    using False by (simp add: validate_run_def)
  from validate_loop_warning_source [of pf h w 0 ds init_vstate] obtain ws where
    ws: "warnings ?s = ws"
    and src: "\<forall>x \<in> set ws. \<exists>j < length ds. warning_index x = Some j \<and> \<not> low_confidence (ds ! j)"
    by (auto simp add: init_vstate_def)
  from assms(3) have x: "x \<in> set (warnings (limit_detections ?s))"
    by (simp add: snd_validate_detections run)
  from limit_detections_warnings [of ?s] x ws
  consider "x \<in> set ws" | m n where "x = LimitExceeded m n" by auto
  then show ?thesis
  proof cases
    case 1
    with src obtain j' where "warning_index x = Some j'" "\<not> low_confidence (ds ! j')" by auto
    with assms(2) show ?thesis by auto
  next
    case 2
    then show ?thesis by simp
  qed
qed

text \<open>
  Claim C9, as the code has it. No warning of the returned list is about a detection whose
  confidence is a number below 0.3: it only increments the low-confidence counter. A dict
  whose confidence is not a number is rejected with a warning of its own appended, and no
  counter changes.
\<close>

theorem low_confidence_silent_bad_confidence_warned:
  "(\<forall>j < length ds. low_confidence (ds ! j) \<longrightarrow>
      (\<forall>x \<in> set (snd (validate_detections pf (PList ds) [h, w])). warning_index x \<noteq> Some j)) \<and>
   (\<forall>i d s. low_confidence d \<longrightarrow>
      validate_one pf h w i d s = s\<lparr>rejected_low_confidence := rejected_low_confidence s + 1\<rparr>) \<and>
   (\<forall>i det s. \<not> is_number (dict_get det ''confidence'' (PFloat 0)) \<longrightarrow>
      validate_one pf h w i (PDict det) s =
        s\<lparr>warnings := warnings s @ [BadConfidence i (dict_get det ''confidence'' (PFloat 0))]\<rparr>)"
  using silent_low_confidence validate_one_low_confidence validate_one_bad_confidence
  by (intro conjI allI impI ballI)

text \<open>
  Claim C9 as stated fails: a detection with the confidence \<^verbatim>\<open>"high"\<close> leaves an entry
  in the returned warnings, and the low-confidence counter stays at 0.
\<close>

theorem bad_confidence_warned_counterexample:
  "validate_detections (\<lambda>s. None)
     (PList [PDict [(''bbox'', PList [PInt 10, PInt 10, PInt 100, PInt 100]),
        (''confidence'', PStr ''high''), (''class_id'', PInt 0), (''class_name'', PStr ''car''),
        (''track_id'', PInt 3)]]) [480, 640] = ([], [BadConfidence 0 (PStr ''high'')]) \<and>
   rejected_low_confidence (validate_run (\<lambda>s. None)
     (PList [PDict [(''bbox'', PList [PInt 10, PInt 10, PInt 100, PInt 100]),
        (''confidence'', PStr ''high''), (''class_id'', PInt 0), (''class_name'', PStr ''car''),
        (''track_id'', PInt 3)]]) [480, 640]) = 0 \<and>
   snd (validate_detections (\<lambda>s. None)
     (PList [PDict [(''bbox'', PList [PInt 10, PInt 10, PInt 100, PInt 100]),
        (''confidence'', PStr ''high''), (''class_id'', PInt 0), (''class_name'', PStr ''car''),
        (''track_id'', PInt 3)]]) [480, 640]) \<noteq> []"
  by (simp add: validate_eval)


theorem low_confidence_silent_bad_confidence_warned_witness:
  "low_confidence (PDict [(''confidence'', PFloat 0.1)]) \<and>
   snd (validate_detections (\<lambda>s. None)
      (PList [PDict [(''confidence'', PFloat 0.1)], PDict [(''confidence'', PStr ''high'')]])
      [480, 640]) = [BadConfidence 1 (PStr ''high'')] \<and>
   warning_index (BadConfidence 1 (PStr ''high'')) \<noteq> Some 0 \<and>
   validate_one (\<lambda>s. None) 480 640 0 (PDict [(''confidence'', PFloat 0.1)]) init_vstate =
     init_vstate\<lparr>rejected_low_confidence := rejected_low_confidence init_vstate + 1\<rparr> \<and>
   \<not> is_number (dict_get [(''confidence'', PStr ''high'')] ''confidence'' (PFloat 0)) \<and>
   validate_one (\<lambda>s. None) 480 640 1 (PDict [(''confidence'', PStr ''high'')]) init_vstate =
     init_vstate\<lparr>warnings := warnings init_vstate @
       [BadConfidence 1 (dict_get [(''confidence'', PStr ''high'')] ''confidence'' (PFloat 0))]\<rparr>"
proof -
  let ?lo = "PDict [(''confidence'', PFloat 0.1)]"
  let ?ds = "[?lo, PDict [(''confidence'', PStr ''high'')]]"
  have lo: "low_confidence ?lo"
    by (simp add: low_confidence_def dict_get_def MIN_CONFIDENCE_def)
  have lo': "low_confidence (?ds ! 0)" using lo by simp
  have len: "0 < length ?ds" by simp
  have bad: "\<not> is_number (dict_get [(''confidence'', PStr ''high'')] ''confidence'' (PFloat 0))"
    by (simp add: dict_get_def)
  have ws: "snd (validate_detections (\<lambda>s. None) (PList ?ds) [480, 640]) = [BadConfidence 1 (PStr ''high'')]"
    by (simp add: validate_eval)
  note inst = low_confidence_silent_bad_confidence_warned [of ?ds "\<lambda>s. None" 480 640]
  have mem: "BadConfidence 1 (PStr ''high'') \<in> set (snd (validate_detections (\<lambda>s. None) (PList ?ds) [480, 640]))"
    unfolding ws by simp
  note silent = inst [THEN conjunct1, rule_format, OF len lo' mem]
  note counted = inst [THEN conjunct2, THEN conjunct1, rule_format, OF lo, of 0 init_vstate]
  note warned = inst [THEN conjunct2, THEN conjunct2, rule_format, OF bad, of 1 init_vstate]
  show ?thesis
    using lo ws silent counted bad warned by (intro conjI)
qed

subsection \<open>DetectionValidator: the cap on detections per frame\<close>







subsection \<open>YOLOTracker: assignment of track ids\<close>

lemma distance_less_50: "distance c p < 50 \<longleftrightarrow> (fst c - fst p)\<^sup>2 + (snd c - snd p)\<^sup>2 < 2500"
proof -
  have e: "sqrt 2500 = 50" using real_sqrt_abs [of 50] by simp
  have "sqrt ((fst c - fst p)\<^sup>2 + (snd c - snd p)\<^sup>2) < sqrt 2500 \<longleftrightarrow>
      (fst c - fst p)\<^sup>2 + (snd c - snd p)\<^sup>2 < 2500"
    by (rule real_sqrt_less_iff)
  then show ?thesis unfolding e distance_def .
qed

lemma distance_less_distance:
  "distance c p < distance c q \<longleftrightarrow>
   (fst c - fst p)\<^sup>2 + (snd c - snd p)\<^sup>2 < (fst c - fst q)\<^sup>2 + (snd c - snd q)\<^sup>2"
  by (simp add: distance_def)

lemma match_invI:
  assumes "(m, p) \<in> set seen" "d = distance c p" "d < 50" "\<forall>(t, q) \<in> set seen. d \<le> distance c q"
  shows "match_inv c seen (Some d, Some m)"
  unfolding match_inv_def prod.case option.case using assms by blast

lemma match_inv_step:
  assumes "match_inv c seen acc"
  shows "match_inv c (seen @ [item]) (match_step c acc item)"
proof -
  obtain md mi where acc: "acc = (md, mi)" by (cases acc)
  obtain t q where item: "item = (t, q)" by (cases item)
  show ?thesis
  proof (cases md)
    case None
    with assms acc have mi: "mi = None" and none: "\<forall>(t, q) \<in> set seen. \<not> distance c q < 50"
      by (auto simp: match_inv_def split: option.splits)
    show ?thesis
    proof (cases "distance c q < 50")
      case True
      have "\<forall>(t', q') \<in> set (seen @ [item]). distance c q \<le> distance c q'"
        using none True item by fastforce
      then have "match_inv c (seen @ [item]) (Some (distance c q), Some t)"
        using True item by (intro match_invI [of t q]) simp_all
      then show ?thesis using True None mi acc item by (simp add: match_step_def)
    next
      case False
      then show ?thesis using None mi acc item none
        by (auto simp: match_inv_def match_step_def)
    qed
  next
    case (Some d)
    with assms acc obtain m p where mi: "mi = Some m" and p: "(m, p) \<in> set seen" "d = distance c p"
      "d < 50" and least: "\<forall>(t, q) \<in> set seen. d \<le> distance c q"
      by (auto simp: match_inv_def split: option.splits)
    show ?thesis
    proof (cases "distance c q < d")
      case True
      then have lt: "distance c q < 50" using p(3) by simp
      have "\<forall>(t', q') \<in> set (seen @ [item]). distance c q \<le> distance c q'"
        using least True item by fastforce
      then have "match_inv c (seen @ [item]) (Some (distance c q), Some t)"
        using lt item by (intro match_invI [of t q]) simp_all
      then show ?thesis using True lt Some mi acc item by (simp add: match_step_def)
    next
      case False
      then have "\<forall>(t', q') \<in> set (seen @ [item]). d \<le> distance c q'"
        using least item by fastforce
      then have "match_inv c (seen @ [item]) (Some d, Some m)"
        using p by (intro match_invI [of m p]) simp_all
      then show ?thesis using False Some mi acc item by (simp add: match_step_def)
    qed
  qed
qed

lemma match_inv_loop: "match_inv c items (match_loop c items)"
proof (induction items rule: rev_induct)
  case Nil
  show ?case by (simp add: match_loop_def match_inv_def)
next
  case (snoc x xs)
  then show ?case using match_inv_step [of c xs "match_loop c xs" x]
    by (simp add: match_loop_def)
qed

lemma match_loop_None:
  "snd (match_loop c items) = None \<longleftrightarrow> (\<forall>(t, q) \<in> set items. \<not> distance c q < 50)"
  using match_inv_loop [of c items]
  by (cases "match_loop c items") (auto simp: match_inv_def split: option.splits)

lemma match_loop_Some:
  assumes "snd (match_loop c items) = Some m"
  shows "\<exists>p. (m, p) \<in> set items \<and> distance c p < 50 \<and>
           (\<forall>(t, q) \<in> set items. distance c p \<le> distance c q)"
  using match_inv_loop [of c items] assms
  by (cases "match_loop c items") (auto simp: match_inv_def split: option.splits)

lemma assign_track_id_history [simp]:
  "track_history (snd (assign_track_id sid b s)) = track_history s"
  by (simp add: assign_track_id_def Let_def split: option.splits)

lemma session_tracks_assign_same:
  "session_tracks (snd (assign_track_id sid b s)) sid =
     AList.update (fst (assign_track_id sid b s)) (centre b) (session_tracks s sid)"
  by (cases "snd (match_loop (centre b) (session_tracks s sid))")
    (simp_all add: assign_track_id_def Let_def session_tracks_def)

lemma session_tracks_assign_other:
  "sid' \<noteq> sid \<Longrightarrow> session_tracks (snd (assign_track_id sid b s)) sid' = session_tracks s sid'"
  by (cases "snd (match_loop (centre b) (session_tracks s sid))")
    (simp_all add: assign_track_id_def Let_def session_tracks_def)

lemma assign_track_id_fresh:
  assumes "\<forall>(t, p) \<in> set (session_tracks s sid). \<not> distance (centre b) p < 50"
  shows "fst (assign_track_id sid b s) = track_id_counter s"
    and "track_id_counter (snd (assign_track_id sid b s)) = track_id_counter s + 1"
proof -
  from assms have "snd (match_loop (centre b) (session_tracks s sid)) = None"
    by (simp only: match_loop_None)
  then show "fst (assign_track_id sid b s) = track_id_counter s"
    and "track_id_counter (snd (assign_track_id sid b s)) = track_id_counter s + 1"
    by (simp_all add: assign_track_id_def Let_def)
qed

lemma assign_track_id_reuse:
  assumes "\<not> (\<forall>(t, p) \<in> set (session_tracks s sid). \<not> distance (centre b) p < 50)"
  shows "\<exists>p. (fst (assign_track_id sid b s), p) \<in> set (session_tracks s sid) \<and>
            distance (centre b) p < 50 \<and>
            (\<forall>(t, q) \<in> set (session_tracks s sid). distance (centre b) p \<le> distance (centre b) q)"
    and "track_id_counter (snd (assign_track_id sid b s)) = track_id_counter s"
proof -
  from assms have "snd (match_loop (centre b) (session_tracks s sid)) \<noteq> None"
    by (simp only: match_loop_None) simp
  then obtain m where m: "snd (match_loop (centre b) (session_tracks s sid)) = Some m" by auto
  then have tid: "fst (assign_track_id sid b s) = m"
    by (simp add: assign_track_id_def Let_def)
  from match_loop_Some [OF m]
  show "\<exists>p. (fst (assign_track_id sid b s), p) \<in> set (session_tracks s sid) \<and>
            distance (centre b) p < 50 \<and>
            (\<forall>(t, q) \<in> set (session_tracks s sid). distance (centre b) p \<le> distance (centre b) q)"
    unfolding tid .
  from m show "track_id_counter (snd (assign_track_id sid b s)) = track_id_counter s"
    by (simp add: assign_track_id_def Let_def)
qed

lemma assign_track_id_counter_mono:
  "track_id_counter s \<le> track_id_counter (snd (assign_track_id sid b s))"
  by (simp add: assign_track_id_def Let_def split: option.splits)

lemma track_box_counter:
  "track_id_counter (snd (track_box sid acc b)) =
   track_id_counter (snd (assign_track_id sid (box_xyxy b) (snd acc)))"
  by (cases acc; cases "assign_track_id sid (box_xyxy b) (snd acc)")
    (simp add: track_box_def Let_def)

lemma track_box_counter_mono:
  "track_id_counter (snd acc) \<le> track_id_counter (snd (track_box sid acc b))"
  unfolding track_box_counter by (rule assign_track_id_counter_mono)

lemma foldl_invariant:
  assumes "P a" and "\<And>a x. P a \<Longrightarrow> P (f a x)"
  shows "P (foldl f a xs)"
  using assms(1) by (induction xs arbitrary: a) (simp_all add: assms(2))

lemma boxes_counter_mono:
  "track_id_counter (snd acc) \<le> track_id_counter (snd (foldl (track_box sid) acc boxes))"
proof (induction boxes rule: rev_induct)
  case Nil
  show ?case by simp
next
  case (snoc b bs)
  have "track_id_counter (snd (foldl (track_box sid) acc bs)) \<le>
      track_id_counter (snd (track_box sid (foldl (track_box sid) acc bs) b))"
    by (rule track_box_counter_mono)
  with snoc show ?case by simp
qed

lemma results_counter_mono:
  "track_id_counter (snd acc) \<le> track_id_counter (snd (foldl
     (\<lambda>acc r. case r of None \<Rightarrow> acc | Some boxes \<Rightarrow> foldl (track_box sid) acc boxes) acc results))"
proof (induction results rule: rev_induct)
  case Nil
  show ?case by simp
next
  case (snoc r rs)
  show ?case
  proof (cases r)
    case None
    with snoc show ?thesis by simp
  next
    case (Some boxes)
    let ?a = "foldl (\<lambda>acc r. case r of None \<Rightarrow> acc | Some boxes \<Rightarrow> foldl (track_box sid) acc boxes) acc rs"
    have "track_id_counter (snd ?a) \<le> track_id_counter (snd (foldl (track_box sid) ?a boxes))"
      by (rule boxes_counter_mono)
    with snoc Some show ?thesis by simp
  qed
qed

lemma detect_and_track_counter_mono:
  "track_id_counter s \<le> track_id_counter (snd (detect_and_track sid results s))"
  using results_counter_mono [of "([], s)" sid results] by (simp add: detect_and_track_def)

lemma serve_step_counter_mono:
  "track_id_counter (fst acc) \<le> track_id_counter (fst (serve_step acc frame))"
proof -
  obtain s out where acc: "acc = (s, out)" by (cases acc)
  obtain sid results where fr: "frame = (sid, results)" by (cases frame)
  obtain dets s' where d: "detect_and_track sid results s = (dets, s')"
    by (cases "detect_and_track sid results s")
  from detect_and_track_counter_mono [of s sid results] d
  show ?thesis by (simp add: serve_step_def acc fr)
qed

lemma frames_counter_mono:
  "track_id_counter (fst acc) \<le> track_id_counter (fst (foldl serve_step acc frames))"
proof (induction frames rule: rev_induct)
  case Nil
  show ?case by simp
next
  case (snoc f fs)
  have "track_id_counter (fst (foldl serve_step acc fs)) \<le>
      track_id_counter (fst (serve_step (foldl serve_step acc fs) f))"
    by (rule serve_step_counter_mono)
  with snoc show ?case by simp
qed

lemma detect_and_track_snoc:
  "detect_and_track sid [Some (boxes @ [b])] s = track_box sid (detect_and_track sid [Some boxes] s) b"
  by (simp add: detect_and_track_def)

text \<open>
  Claim C6. In \<open>assign_track_id\<close>: when some track of the session lies strictly within 50
  pixels of the new centroid, the id returned is that of a track of the session that is
  within 50 pixels and nearest to the centroid, and the counter is left alone; when none
  does, the id returned is the value of the counter, which goes up by one. In both cases the
  centroid stored under the returned id is the new one and every other track of the session
  is as before; other sessions are untouched. The counter never goes down over a frame, nor
  over any sequence of frames of any sessions. Within a frame the boxes are taken in order,
  each matched against the state left by the ones before.
\<close>

theorem centroid_assignment:
  "((\<exists>(t, p) \<in> set (session_tracks s sid). distance (centre b) p < 50) \<longrightarrow>
      (\<exists>p. (fst (assign_track_id sid b s), p) \<in> set (session_tracks s sid) \<and>
           distance (centre b) p < 50 \<and>
           (\<forall>(t, q) \<in> set (session_tracks s sid). distance (centre b) p \<le> distance (centre b) q)) \<and>
      track_id_counter (snd (assign_track_id sid b s)) = track_id_counter s) \<and>
   ((\<forall>(t, p) \<in> set (session_tracks s sid). \<not> distance (centre b) p < 50) \<longrightarrow>
      fst (assign_track_id sid b s) = track_id_counter s \<and>
      track_id_counter (snd (assign_track_id sid b s)) = track_id_counter s + 1) \<and>
   map_of (session_tracks (snd (assign_track_id sid b s)) sid) =
     (map_of (session_tracks s sid))(fst (assign_track_id sid b s) \<mapsto> centre b) \<and>
   (\<forall>sid'. sid' \<noteq> sid \<longrightarrow>
      session_tracks (snd (assign_track_id sid b s)) sid' = session_tracks s sid') \<and>
   track_id_counter s \<le> track_id_counter (snd (detect_and_track sid results s)) \<and>
   track_id_counter s \<le> track_id_counter (fst (foldl serve_step (s, out) frames)) \<and>
   detect_and_track sid [Some (boxes @ [bx])] s =
     track_box sid (detect_and_track sid [Some boxes] s) bx"
proof -
  have reuse: "(\<exists>(t, p) \<in> set (session_tracks s sid). distance (centre b) p < 50) \<longrightarrow>
      (\<exists>p. (fst (assign_track_id sid b s), p) \<in> set (session_tracks s sid) \<and>
           distance (centre b) p < 50 \<and>
           (\<forall>(t, q) \<in> set (session_tracks s sid). distance (centre b) p \<le> distance (centre b) q)) \<and>
      track_id_counter (snd (assign_track_id sid b s)) = track_id_counter s"
  proof
    assume "\<exists>(t, p) \<in> set (session_tracks s sid). distance (centre b) p < 50"
    then have n: "\<not> (\<forall>(t, p) \<in> set (session_tracks s sid). \<not> distance (centre b) p < 50)"
      by fastforce
    from assign_track_id_reuse [OF n]
    show "(\<exists>p. (fst (assign_track_id sid b s), p) \<in> set (session_tracks s sid) \<and>
           distance (centre b) p < 50 \<and>
           (\<forall>(t, q) \<in> set (session_tracks s sid). distance (centre b) p \<le> distance (centre b) q)) \<and>
      track_id_counter (snd (assign_track_id sid b s)) = track_id_counter s"
      by (rule conjI)
  qed
  have fresh: "(\<forall>(t, p) \<in> set (session_tracks s sid). \<not> distance (centre b) p < 50) \<longrightarrow>
      fst (assign_track_id sid b s) = track_id_counter s \<and>
      track_id_counter (snd (assign_track_id sid b s)) = track_id_counter s + 1"
    using assign_track_id_fresh [of s sid b] by (intro impI conjI)
  have upd: "map_of (session_tracks (snd (assign_track_id sid b s)) sid) =
     (map_of (session_tracks s sid))(fst (assign_track_id sid b s) \<mapsto> centre b)"
    unfolding session_tracks_assign_same by (rule update_conv')
  have other: "\<forall>sid'. sid' \<noteq> sid \<longrightarrow>
      session_tracks (snd (assign_track_id sid b s)) sid' = session_tracks s sid'"
    by (intro allI impI) (rule session_tracks_assign_other)
  have m1: "track_id_counter s \<le> track_id_counter (snd (detect_and_track sid results s))"
    by (rule detect_and_track_counter_mono)
  have m2: "track_id_counter s \<le> track_id_counter (fst (foldl serve_step (s, out) frames))"
    using frames_counter_mono [of "(s, out)" frames] by simp
  have greedy: "detect_and_track sid [Some (boxes @ [bx])] s =
     track_box sid (detect_and_track sid [Some boxes] s) bx"
    by (rule detect_and_track_snoc)
  from reuse fresh upd other m1 m2 greedy show ?thesis by (intro conjI)
qed

lemmas tracker_eval = assign_track_id_def session_tracks_def match_loop_def match_step_def
  centre_def distance_less_50 distance_less_distance track_box_def detect_and_track_def
  get_track_history_def Let_def

theorem centroid_assignment_witness:
  "fst (assign_track_id ''a'' (30, -10, 50, 10) \<lparr>trackers = [''a'' \<mapsto> [(0, (0, 0))]], track_id_counter = 1, track_history = [0 \<mapsto> [(0, 0)]]\<rparr>) = 0 \<and>
   track_id_counter (snd (assign_track_id ''a'' (30, -10, 50, 10) \<lparr>trackers = [''a'' \<mapsto> [(0, (0, 0))]], track_id_counter = 1, track_history = [0 \<mapsto> [(0, 0)]]\<rparr>)) = 1 \<and>
   map_of (session_tracks (snd (assign_track_id ''a'' (30, -10, 50, 10) \<lparr>trackers = [''a'' \<mapsto> [(0, (0, 0))]], track_id_counter = 1, track_history = [0 \<mapsto> [(0, 0)]]\<rparr>)) ''a'') 0 = Some (40, 0) \<and>
   fst (assign_track_id ''a'' (200, 200, 220, 220) \<lparr>trackers = [''a'' \<mapsto> [(0, (0, 0))]], track_id_counter = 1, track_history = [0 \<mapsto> [(0, 0)]]\<rparr>) = 1 \<and>
   track_id_counter (snd (assign_track_id ''a'' (200, 200, 220, 220) \<lparr>trackers = [''a'' \<mapsto> [(0, (0, 0))]], track_id_counter = 1, track_history = [0 \<mapsto> [(0, 0)]]\<rparr>)) = 2 \<and>
   fst (assign_track_id ''b'' (30, -10, 50, 10) \<lparr>trackers = [''a'' \<mapsto> [(0, (0, 0))]], track_id_counter = 1, track_history = [0 \<mapsto> [(0, 0)]]\<rparr>) = 1 \<and>
   session_tracks (snd (assign_track_id ''b'' (30, -10, 50, 10) \<lparr>trackers = [''a'' \<mapsto> [(0, (0, 0))]], track_id_counter = 1, track_history = [0 \<mapsto> [(0, 0)]]\<rparr>)) ''a'' = [(0, (0, 0))] \<and>
   map det_track_id (fst (detect_and_track ''a'' [Some [\<lparr>box_xyxy = (30, -10, 50, 10), box_conf = 0.9, box_cls = 0\<rparr>, \<lparr>box_xyxy = (-50, -10, -30, 10), box_conf = 0.8, box_cls = 0\<rparr>]] \<lparr>trackers = [''a'' \<mapsto> [(0, (0, 0))]], track_id_counter = 1, track_history = [0 \<mapsto> [(0, 0)]]\<rparr>)) = [0, 1] \<and>
   map det_track_id (fst (detect_and_track ''a'' [Some [\<lparr>box_xyxy = (-50, -10, -30, 10), box_conf = 0.8, box_cls = 0\<rparr>, \<lparr>box_xyxy = (30, -10, 50, 10), box_conf = 0.9, box_cls = 0\<rparr>]] \<lparr>trackers = [''a'' \<mapsto> [(0, (0, 0))]], track_id_counter = 1, track_history = [0 \<mapsto> [(0, 0)]]\<rparr>)) = [0, 1]"
proof -
  let ?s = "\<lparr>trackers = [''a'' \<mapsto> [(0, (0, 0))]], track_id_counter = 1, track_history = [0 \<mapsto> [(0, 0)]]\<rparr>"
  have tr: "session_tracks ?s ''a'' = [(0, (0, 0))]" "session_tracks ?s ''b'' = []"
    by (simp_all add: session_tracks_def)
  note near = centroid_assignment [of ?s "''a''" "(30, -10, 50, 10)" "[]" "[]" "[]" "[]" "\<lparr>box_xyxy = (30, -10, 50, 10), box_conf = 0.9, box_cls = 0\<rparr>"]
  note far = centroid_assignment [of ?s "''a''" "(200, 200, 220, 220)" "[]" "[]" "[]" "[]" "\<lparr>box_xyxy = (30, -10, 50, 10), box_conf = 0.9, box_cls = 0\<rparr>"]
  note other = centroid_assignment [of ?s "''b''" "(30, -10, 50, 10)" "[]" "[]" "[]" "[]" "\<lparr>box_xyxy = (30, -10, 50, 10), box_conf = 0.9, box_cls = 0\<rparr>"]
  have h1: "\<exists>(t, p) \<in> set (session_tracks ?s ''a''). distance (centre (30, -10, 50, 10)) p < 50"
    by (simp add: tr centre_def distance_less_50)
  from near [THEN conjunct1, THEN mp, OF h1]
  have c1: "fst (assign_track_id ''a'' (30, -10, 50, 10) ?s) = 0"
    and c2: "track_id_counter (snd (assign_track_id ''a'' (30, -10, 50, 10) ?s)) = 1"
    by (auto simp: tr)
  from near [THEN conjunct2, THEN conjunct2, THEN conjunct1]
  have c3: "map_of (session_tracks (snd (assign_track_id ''a'' (30, -10, 50, 10) ?s)) ''a'') 0 = Some (40, 0)"
    by (simp add: c1 centre_def)
  have h2: "\<forall>(t, p) \<in> set (session_tracks ?s ''a''). \<not> distance (centre (200, 200, 220, 220)) p < 50"
    by (simp add: tr centre_def distance_less_50)
  from far [THEN conjunct2, THEN conjunct1, THEN mp, OF h2]
  have c4: "fst (assign_track_id ''a'' (200, 200, 220, 220) ?s) = 1"
    and c5: "track_id_counter (snd (assign_track_id ''a'' (200, 200, 220, 220) ?s)) = 2"
    by simp_all
  have h3: "\<forall>(t, p) \<in> set (session_tracks ?s ''b''). \<not> distance (centre (30, -10, 50, 10)) p < 50"
    by (simp add: tr)
  from other [THEN conjunct2, THEN conjunct1, THEN mp, OF h3]
  have c6: "fst (assign_track_id ''b'' (30, -10, 50, 10) ?s) = 1"
    by simp
  have ne: "''a'' \<noteq> ''b''" by simp
  from other [THEN conjunct2, THEN conjunct2, THEN conjunct2, THEN conjunct1, rule_format, OF ne]
  have c7: "session_tracks (snd (assign_track_id ''b'' (30, -10, 50, 10) ?s)) ''a'' = [(0, (0, 0))]"
    by (simp add: tr)
  have c8: "map det_track_id (fst (detect_and_track ''a'' [Some [\<lparr>box_xyxy = (30, -10, 50, 10), box_conf = 0.9, box_cls = 0\<rparr>, \<lparr>box_xyxy = (-50, -10, -30, 10), box_conf = 0.8, box_cls = 0\<rparr>]] ?s)) = [0, 1]"
    by (simp add: tracker_eval)
  have c9: "map det_track_id (fst (detect_and_track ''a'' [Some [\<lparr>box_xyxy = (-50, -10, -30, 10), box_conf = 0.8, box_cls = 0\<rparr>, \<lparr>box_xyxy = (30, -10, 50, 10), box_conf = 0.9, box_cls = 0\<rparr>]] ?s)) = [0, 1]"
    by (simp add: tracker_eval)
  from c1 c2 c3 c4 c5 c6 c7 c8 c9 show ?thesis by (intro conjI)
qed

subsection \<open>YOLOTracker: what holds over its whole life\<close>

lemma session_ids_assign_same:
  "session_ids (snd (assign_track_id sid b s)) sid =
     insert (fst (assign_track_id sid b s)) (session_ids s sid)"
  unfolding session_ids_def session_tracks_assign_same by (simp add: dom_update)

lemma session_ids_assign_other:
  "sid' \<noteq> sid \<Longrightarrow> session_ids (snd (assign_track_id sid b s)) sid' = session_ids s sid'"
  unfolding session_ids_def by (simp add: session_tracks_assign_other)

lemma assign_track_id_cases:
  "(fst (assign_track_id sid b s) \<in> session_ids s sid \<and>
      track_id_counter (snd (assign_track_id sid b s)) = track_id_counter s) \<or>
   (fst (assign_track_id sid b s) = track_id_counter s \<and>
      track_id_counter (snd (assign_track_id sid b s)) = track_id_counter s + 1)"
proof (cases "\<forall>(t, p) \<in> set (session_tracks s sid). \<not> distance (centre b) p < 50")
  case True
  from assign_track_id_fresh [OF True] show ?thesis by simp
next
  case False
  from assign_track_id_reuse [OF False]
  obtain p where "(fst (assign_track_id sid b s), p) \<in> set (session_tracks s sid)"
    and c: "track_id_counter (snd (assign_track_id sid b s)) = track_id_counter s"
    by (elim exE conjE)
  then have "fst (assign_track_id sid b s) \<in> session_ids s sid"
    unfolding session_ids_def by (metis fst_conv image_eqI)
  with c show ?thesis by simp
qed

lemma get_track_history_assign [simp]:
  "get_track_history (snd (assign_track_id sid b s)) t = get_track_history s t"
  by (simp add: get_track_history_def)

lemma fst_track_box:
  "fst (track_box sid (dets, s) b) =
     dets @ [detection_of b (fst (assign_track_id sid (box_xyxy b) s))]"
  by (cases "assign_track_id sid (box_xyxy b) s") (simp add: track_box_def Let_def detection_of_def)

lemma session_tracks_track_box:
  "session_tracks (snd (track_box sid (dets, s) b)) sid' =
     session_tracks (snd (assign_track_id sid (box_xyxy b) s)) sid'"
  by (cases "assign_track_id sid (box_xyxy b) s") (simp add: track_box_def Let_def session_tracks_def)

lemma session_ids_track_box:
  "session_ids (snd (track_box sid (dets, s) b)) sid' =
     session_ids (snd (assign_track_id sid (box_xyxy b) s)) sid'"
  by (simp add: session_ids_def session_tracks_track_box)

lemma history_track_box_same:
  "get_track_history (snd (track_box sid (dets, s) b)) (fst (assign_track_id sid (box_xyxy b) s)) =
     (if length (get_track_history s (fst (assign_track_id sid (box_xyxy b) s)) @ [centre (box_xyxy b)]) > 30
      then tl (get_track_history s (fst (assign_track_id sid (box_xyxy b) s)) @ [centre (box_xyxy b)])
      else get_track_history s (fst (assign_track_id sid (box_xyxy b) s)) @ [centre (box_xyxy b)])"
proof -
  obtain tid s1 where a: "assign_track_id sid (box_xyxy b) s = (tid, s1)"
    by (cases "assign_track_id sid (box_xyxy b) s")
  have "get_track_history s1 tid = get_track_history s tid"
    using get_track_history_assign [of sid "box_xyxy b" s tid] by (simp add: a)
  then show ?thesis
    by (simp add: a track_box_def Let_def) (simp add: get_track_history_def)
qed

lemma history_track_box_other:
  assumes "t \<noteq> fst (assign_track_id sid (box_xyxy b) s)"
  shows "get_track_history (snd (track_box sid (dets, s) b)) t = get_track_history s t"
proof -
  obtain tid s1 where a: "assign_track_id sid (box_xyxy b) s = (tid, s1)"
    by (cases "assign_track_id sid (box_xyxy b) s")
  have "get_track_history s1 t = get_track_history s t"
    using get_track_history_assign [of sid "box_xyxy b" s t] by (simp add: a)
  then show ?thesis using assms
    by (simp add: a track_box_def Let_def) (simp add: get_track_history_def)
qed

lemma tracker_inv_track_box:
  assumes inv: "tracker_inv s L"
  shows "tracker_inv (snd (track_box sid (dets, s) b))
           (L @ [(sid, detection_of b (fst (assign_track_id sid (box_xyxy b) s)))])"
proof -
  let ?tid = "fst (assign_track_id sid (box_xyxy b) s)"
  let ?s' = "snd (track_box sid (dets, s) b)"
  let ?c = "centre (box_xyxy b)"
  let ?d = "detection_of b ?tid"
  from inv have i1: "\<And>x t. t \<in> session_ids s x \<Longrightarrow> t < track_id_counter s"
    and i2: "\<And>x y. x \<noteq> y \<Longrightarrow> session_ids s x \<inter> session_ids s y = {}"
    and i3: "\<And>x d. (x, d) \<in> set L \<Longrightarrow> det_track_id d \<in> session_ids s x"
    and i4: "\<And>t c. c \<in> set (get_track_history s t) \<Longrightarrow>
        \<exists>(x, d) \<in> set L. det_track_id d = t \<and> centre (det_bbox d) = c"
    and i5: "\<And>t. length (get_track_history s t) \<le> 30"
    unfolding tracker_inv_def by blast+
  have same: "session_ids ?s' sid = insert ?tid (session_ids s sid)"
    by (simp add: session_ids_track_box session_ids_assign_same)
  have other: "\<And>x. x \<noteq> sid \<Longrightarrow> session_ids ?s' x = session_ids s x"
    by (simp add: session_ids_track_box session_ids_assign_other)
  have grow: "\<And>x. session_ids s x \<subseteq> session_ids ?s' x"
  proof -
    fix x show "session_ids s x \<subseteq> session_ids ?s' x"
      by (cases "x = sid") (auto simp: same other)
  qed
  have cnt: "track_id_counter ?s' = track_id_counter (snd (assign_track_id sid (box_xyxy b) s))"
    using track_box_counter [of sid "(dets, s)" b] by simp
  have cases: "(?tid \<in> session_ids s sid \<and> track_id_counter ?s' = track_id_counter s) \<or>
      (?tid = track_id_counter s \<and> track_id_counter ?s' = track_id_counter s + 1)"
    unfolding cnt by (rule assign_track_id_cases)
  have elsewhere: "?tid \<notin> session_ids s x" if "x \<noteq> sid" for x
  proof
    assume in_x: "?tid \<in> session_ids s x"
    from cases show False
    proof
      assume "?tid \<in> session_ids s sid \<and> track_id_counter ?s' = track_id_counter s"
      with in_x i2 [OF that] show False by blast
    next
      assume "?tid = track_id_counter s \<and> track_id_counter ?s' = track_id_counter s + 1"
      with i1 [OF in_x] show False by simp
    qed
  qed
  have c1: "\<forall>x. \<forall>t \<in> session_ids ?s' x. t < track_id_counter ?s'"
  proof (intro allI ballI)
    fix x t assume t: "t \<in> session_ids ?s' x"
    have le: "track_id_counter s \<le> track_id_counter ?s'" using cases by auto
    show "t < track_id_counter ?s'"
    proof (cases "t \<in> session_ids s x")
      case True
      from i1 [OF this] le show ?thesis by simp
    next
      case False
      have x: "x = sid"
      proof (rule ccontr)
        assume "x \<noteq> sid"
        from other [OF this] t False show False by simp
      qed
      with t False have "t = ?tid" by (simp add: same)
      with x False cases show ?thesis by auto
    qed
  qed
  have c2: "\<forall>x y. x \<noteq> y \<longrightarrow> session_ids ?s' x \<inter> session_ids ?s' y = {}"
  proof (intro allI impI)
    fix x y :: string assume ne: "x \<noteq> y"
    show "session_ids ?s' x \<inter> session_ids ?s' y = {}"
    proof (cases "x = sid")
      case True
      with ne have y: "y \<noteq> sid" by simp
      from elsewhere [OF y] i2 [OF ne] show ?thesis
        by (simp add: True same other [OF y])
    next
      case False
      show ?thesis
      proof (cases "y = sid")
        case True
        from elsewhere [OF False] i2 [OF ne] show ?thesis
          by (simp add: True same other [OF False])
      next
        case y: False
        from i2 [OF ne] show ?thesis by (simp add: other [OF False] other [OF y])
      qed
    qed
  qed
  have c3: "\<forall>(x, d) \<in> set (L @ [(sid, ?d)]). det_track_id d \<in> session_ids ?s' x"
  proof -
    have "det_track_id ?d \<in> session_ids ?s' sid" by (simp add: same detection_of_def)
    moreover have "\<And>x d. (x, d) \<in> set L \<Longrightarrow> det_track_id d \<in> session_ids ?s' x"
      using i3 grow by blast
    ultimately show ?thesis by auto
  qed
  have hsame: "set (get_track_history ?s' ?tid) \<subseteq> insert ?c (set (get_track_history s ?tid))"
    and lsame: "length (get_track_history ?s' ?tid) \<le> 30"
  proof -
    have "set (tl (get_track_history s ?tid @ [?c])) \<subseteq> set (get_track_history s ?tid @ [?c])"
      by (rule list.set_sel(2) [THEN subsetI]) simp
    then show "set (get_track_history ?s' ?tid) \<subseteq> insert ?c (set (get_track_history s ?tid))"
      unfolding history_track_box_same by auto
    show "length (get_track_history ?s' ?tid) \<le> 30"
      unfolding history_track_box_same using i5 [of ?tid] by auto
  qed
  have c4: "\<forall>t. \<forall>c \<in> set (get_track_history ?s' t).
      \<exists>(x, d) \<in> set (L @ [(sid, ?d)]). det_track_id d = t \<and> centre (det_bbox d) = c"
  proof (intro allI ballI)
    fix t c assume c: "c \<in> set (get_track_history ?s' t)"
    show "\<exists>(x, d) \<in> set (L @ [(sid, ?d)]). det_track_id d = t \<and> centre (det_bbox d) = c"
    proof (cases "t = ?tid")
      case True
      with c hsame have "c = ?c \<or> c \<in> set (get_track_history s ?tid)" by auto
      then show ?thesis
      proof
        assume "c = ?c"
        then have "det_track_id ?d = t \<and> centre (det_bbox ?d) = c"
          by (simp add: True detection_of_def)
        then show ?thesis by auto
      next
        assume "c \<in> set (get_track_history s ?tid)"
        from i4 [OF this] show ?thesis using True by auto
      qed
    next
      case False
      with c have "c \<in> set (get_track_history s t)" by (simp add: history_track_box_other)
      from i4 [OF this] show ?thesis by auto
    qed
  qed
  have c5: "\<forall>t. length (get_track_history ?s' t) \<le> 30"
  proof
    fix t show "length (get_track_history ?s' t) \<le> 30"
      by (cases "t = ?tid") (simp_all add: lsame history_track_box_other i5)
  qed
  from c1 c2 c3 c4 c5 show ?thesis unfolding tracker_inv_def by (intro conjI)
qed

lemma tracker_inv_boxes:
  assumes "tracker_inv (snd acc) (L0 @ map (Pair sid) (fst acc))"
  shows "tracker_inv (snd (foldl (track_box sid) acc boxes))
           (L0 @ map (Pair sid) (fst (foldl (track_box sid) acc boxes)))"
proof (rule foldl_invariant [where P = "\<lambda>a. tracker_inv (snd a) (L0 @ map (Pair sid) (fst a))"])
  show "tracker_inv (snd acc) (L0 @ map (Pair sid) (fst acc))" by (rule assms)
next
  fix a :: "detection list \<times> tracker_state" and x :: box
  assume a: "tracker_inv (snd a) (L0 @ map (Pair sid) (fst a))"
  obtain dets s where eq: "a = (dets, s)" by (cases a)
  from a have "tracker_inv s (L0 @ map (Pair sid) dets)" by (simp add: eq)
  from tracker_inv_track_box [OF this, of sid dets x]
  show "tracker_inv (snd (track_box sid a x)) (L0 @ map (Pair sid) (fst (track_box sid a x)))"
    by (simp add: eq fst_track_box)
qed

lemma tracker_inv_results:
  assumes "tracker_inv (snd acc) (L0 @ map (Pair sid) (fst acc))"
  shows "tracker_inv
     (snd (foldl (\<lambda>acc r. case r of None \<Rightarrow> acc | Some boxes \<Rightarrow> foldl (track_box sid) acc boxes) acc results))
     (L0 @ map (Pair sid)
       (fst (foldl (\<lambda>acc r. case r of None \<Rightarrow> acc | Some boxes \<Rightarrow> foldl (track_box sid) acc boxes) acc results)))"
proof (rule foldl_invariant [where P = "\<lambda>a. tracker_inv (snd a) (L0 @ map (Pair sid) (fst a))"])
  show "tracker_inv (snd acc) (L0 @ map (Pair sid) (fst acc))" by (rule assms)
next
  fix a :: "detection list \<times> tracker_state" and r :: "box list option"
  assume a: "tracker_inv (snd a) (L0 @ map (Pair sid) (fst a))"
  show "tracker_inv (snd (case r of None \<Rightarrow> a | Some boxes \<Rightarrow> foldl (track_box sid) a boxes))
     (L0 @ map (Pair sid) (fst (case r of None \<Rightarrow> a | Some boxes \<Rightarrow> foldl (track_box sid) a boxes)))"
  proof (cases r)
    case None
    with a show ?thesis by simp
  next
    case (Some boxes)
    from tracker_inv_boxes [OF a, of boxes] show ?thesis by (simp add: Some)
  qed
qed

lemma tracker_inv_detect_and_track:
  assumes "tracker_inv s L0"
  shows "tracker_inv (snd (detect_and_track sid results s))
           (L0 @ map (Pair sid) (fst (detect_and_track sid results s)))"
  using tracker_inv_results [of "([], s)" L0 sid results] assms
  by (simp add: detect_and_track_def)

lemma returned_snoc: "returned (out @ [(sid, dets)]) = returned out @ map (Pair sid) dets"
  by (simp add: returned_def)

lemma tracker_inv_serve_step:
  assumes "tracker_inv (fst acc) (returned (snd acc))"
  shows "tracker_inv (fst (serve_step acc frame)) (returned (snd (serve_step acc frame)))"
proof -
  obtain s out where acc: "acc = (s, out)" by (cases acc)
  obtain sid results where fr: "frame = (sid, results)" by (cases frame)
  obtain dets s' where d: "detect_and_track sid results s = (dets, s')"
    by (cases "detect_and_track sid results s")
  from assms have "tracker_inv s (returned out)" by (simp add: acc)
  from tracker_inv_detect_and_track [OF this, of sid results]
  show ?thesis by (simp add: serve_step_def acc fr d returned_snoc)
qed

lemma tracker_inv_init: "tracker_inv init_tracker (returned [])"
  by (simp add: tracker_inv_def init_tracker_def returned_def session_ids_def session_tracks_def
      get_track_history_def)

lemma tracker_inv_serve:
  "tracker_inv (fst (serve frames)) (returned (snd (serve frames)))"
  unfolding serve_def
proof (rule foldl_invariant [where P = "\<lambda>a. tracker_inv (fst a) (returned (snd a))"])
  show "tracker_inv (fst (init_tracker, [])) (returned (snd (init_tracker, [])))"
    using tracker_inv_init by simp
next
  fix a :: "tracker_state \<times> (string \<times> detection list) list" and x :: "string \<times> box list option list"
  assume "tracker_inv (fst a) (returned (snd a))"
  then show "tracker_inv (fst (serve_step a x)) (returned (snd (serve_step a x)))"
    by (rule tracker_inv_serve_step)
qed

text \<open>
  Claim C8. After any sequence of frames of any sessions, the history of every track holds
  at most 30 centroids. One update of a track (\<open>track_box\<close>) appends the new centroid to a
  history of fewer than 30 entries; on a full history of 30 it drops the oldest entry, the
  head, keeps the others in order and puts the new centroid last. The histories of the other
  tracks are left alone, and the bound of 30 is kept by every update.
\<close>

theorem history_bounded_fifo:
  "(\<forall>tid. length (get_track_history (fst (serve frames)) tid) \<le> 30) \<and>
   (length (get_track_history s (fst (assign_track_id sid (box_xyxy b) s))) < 30 \<longrightarrow>
      get_track_history (snd (track_box sid (dets, s) b)) (fst (assign_track_id sid (box_xyxy b) s)) =
        get_track_history s (fst (assign_track_id sid (box_xyxy b) s)) @ [centre (box_xyxy b)]) \<and>
   (length (get_track_history s (fst (assign_track_id sid (box_xyxy b) s))) = 30 \<longrightarrow>
      get_track_history (snd (track_box sid (dets, s) b)) (fst (assign_track_id sid (box_xyxy b) s)) =
        tl (get_track_history s (fst (assign_track_id sid (box_xyxy b) s))) @ [centre (box_xyxy b)]) \<and>
   (\<forall>t. t \<noteq> fst (assign_track_id sid (box_xyxy b) s) \<longrightarrow>
      get_track_history (snd (track_box sid (dets, s) b)) t = get_track_history s t) \<and>
   ((\<forall>t. length (get_track_history s t) \<le> 30) \<longrightarrow>
      (\<forall>t. length (get_track_history (snd (track_box sid (dets, s) b)) t) \<le> 30))"
proof -
  let ?tid = "fst (assign_track_id sid (box_xyxy b) s)"
  let ?s' = "snd (track_box sid (dets, s) b)"
  have a: "\<forall>tid. length (get_track_history (fst (serve frames)) tid) \<le> 30"
    using tracker_inv_serve [of frames] unfolding tracker_inv_def by (elim conjE)
  have b1: "length (get_track_history s ?tid) < 30 \<longrightarrow>
      get_track_history ?s' ?tid = get_track_history s ?tid @ [centre (box_xyxy b)]"
    unfolding history_track_box_same by simp
  have b2: "length (get_track_history s ?tid) = 30 \<longrightarrow>
      get_track_history ?s' ?tid = tl (get_track_history s ?tid) @ [centre (box_xyxy b)]"
  proof
    assume l: "length (get_track_history s ?tid) = 30"
    then have "get_track_history s ?tid \<noteq> []" by auto
    then have "tl (get_track_history s ?tid @ [centre (box_xyxy b)]) =
        tl (get_track_history s ?tid) @ [centre (box_xyxy b)]" by simp
    then show "get_track_history ?s' ?tid = tl (get_track_history s ?tid) @ [centre (box_xyxy b)]"
      unfolding history_track_box_same using l by simp
  qed
  have c: "\<forall>t. t \<noteq> ?tid \<longrightarrow> get_track_history ?s' t = get_track_history s t"
    by (intro allI impI) (rule history_track_box_other)
  have d: "(\<forall>t. length (get_track_history s t) \<le> 30) \<longrightarrow>
      (\<forall>t. length (get_track_history ?s' t) \<le> 30)"
  proof (intro impI allI)
    fix t assume le: "\<forall>t. length (get_track_history s t) \<le> 30"
    show "length (get_track_history ?s' t) \<le> 30"
    proof (cases "t = ?tid")
      case True
      from le have "length (get_track_history s ?tid) \<le> 30" by (rule spec)
      then show ?thesis unfolding True history_track_box_same by auto
    next
      case False
      from le have "length (get_track_history s t) \<le> 30" by (rule spec)
      then show ?thesis by (simp add: history_track_box_other [OF False])
    qed
  qed
  from a b1 b2 c d show ?thesis by (intro conjI)
qed

text \<open>
  Claim C10. After any sequence of frames of any sessions: two distinct sessions hold no
  track id in common; two returned detections with the same track id were returned to the
  same session; every centroid in the history of an id is the centroid of a detection
  returned with that id (so a history holds centroids of one session only); and an id
  about to be freshly allocated is held by no session, was never returned before, and has
  an empty history.
\<close>

theorem track_ids_never_shared:
  "(\<forall>sid sid'. sid \<noteq> sid' \<longrightarrow>
      session_ids (fst (serve frames)) sid \<inter> session_ids (fst (serve frames)) sid' = {}) \<and>
   (\<forall>(sid, d) \<in> set (returned (snd (serve frames))).
      \<forall>(sid', d') \<in> set (returned (snd (serve frames))).
        det_track_id d = det_track_id d' \<longrightarrow> sid = sid') \<and>
   (\<forall>tid. \<forall>c \<in> set (get_track_history (fst (serve frames)) tid).
      \<exists>(sid, d) \<in> set (returned (snd (serve frames))).
        det_track_id d = tid \<and> centre (det_bbox d) = c) \<and>
   (\<forall>sid b. (\<forall>(t, p) \<in> set (session_tracks (fst (serve frames)) sid). \<not> distance (centre b) p < 50) \<longrightarrow>
      (\<forall>sid'. fst (assign_track_id sid b (fst (serve frames))) \<notin> session_ids (fst (serve frames)) sid') \<and>
      (\<forall>(sid', d) \<in> set (returned (snd (serve frames))).
         det_track_id d \<noteq> fst (assign_track_id sid b (fst (serve frames)))) \<and>
      get_track_history (fst (serve frames)) (fst (assign_track_id sid b (fst (serve frames)))) = [])"
proof -
  let ?s = "fst (serve frames)"
  let ?L = "returned (snd (serve frames))"
  from tracker_inv_serve [of frames]
  have i1: "\<And>x t. t \<in> session_ids ?s x \<Longrightarrow> t < track_id_counter ?s"
    and i2: "\<And>x y. x \<noteq> y \<Longrightarrow> session_ids ?s x \<inter> session_ids ?s y = {}"
    and i3: "\<And>x d. (x, d) \<in> set ?L \<Longrightarrow> det_track_id d \<in> session_ids ?s x"
    and i4: "\<And>t c. c \<in> set (get_track_history ?s t) \<Longrightarrow>
        \<exists>(x, d) \<in> set ?L. det_track_id d = t \<and> centre (det_bbox d) = c"
    unfolding tracker_inv_def by blast+
  have a: "\<forall>sid sid'. sid \<noteq> sid' \<longrightarrow> session_ids ?s sid \<inter> session_ids ?s sid' = {}"
    using i2 by blast
  have b: "\<forall>(sid, d) \<in> set ?L. \<forall>(sid', d') \<in> set ?L. det_track_id d = det_track_id d' \<longrightarrow> sid = sid'"
  proof (intro ballI, clarify)
    fix x d y d'
    assume m: "(x, d) \<in> set ?L" "(y, d') \<in> set ?L" and e: "det_track_id d = det_track_id d'"
    show "x = y"
    proof (rule ccontr)
      assume "x \<noteq> y"
      from i2 [OF this] i3 [OF m(1)] i3 [OF m(2)] e show False by auto
    qed
  qed
  have c: "\<forall>tid. \<forall>c \<in> set (get_track_history ?s tid).
      \<exists>(sid, d) \<in> set ?L. det_track_id d = tid \<and> centre (det_bbox d) = c"
    using i4 by blast
  have d: "\<forall>sid b. (\<forall>(t, p) \<in> set (session_tracks ?s sid). \<not> distance (centre b) p < 50) \<longrightarrow>
      (\<forall>sid'. fst (assign_track_id sid b ?s) \<notin> session_ids ?s sid') \<and>
      (\<forall>(sid', d) \<in> set ?L. det_track_id d \<noteq> fst (assign_track_id sid b ?s)) \<and>
      get_track_history ?s (fst (assign_track_id sid b ?s)) = []"
  proof (intro allI impI)
    fix sid b
    assume far: "\<forall>(t, p) \<in> set (session_tracks ?s sid). \<not> distance (centre b) p < 50"
    from assign_track_id_fresh(1) [OF far]
    have tid: "fst (assign_track_id sid b ?s) = track_id_counter ?s" .
    have d1: "\<forall>sid'. track_id_counter ?s \<notin> session_ids ?s sid'"
      using i1 by fastforce
    have d2: "\<forall>(sid', d) \<in> set ?L. det_track_id d \<noteq> track_id_counter ?s"
    proof (intro ballI, clarify)
      fix x d assume "(x, d) \<in> set ?L" "det_track_id d = track_id_counter ?s"
      with i3 [of x d] d1 show False by auto
    qed
    have d3: "get_track_history ?s (track_id_counter ?s) = []"
    proof (rule ccontr)
      assume "get_track_history ?s (track_id_counter ?s) \<noteq> []"
      then obtain c where "c \<in> set (get_track_history ?s (track_id_counter ?s))"
        by (meson last_in_set)
      from i4 [OF this] d2 show False by fastforce
    qed
    from d1 d2 d3 show "(\<forall>sid'. fst (assign_track_id sid b ?s) \<notin> session_ids ?s sid') \<and>
      (\<forall>(sid', d) \<in> set ?L. det_track_id d \<noteq> fst (assign_track_id sid b ?s)) \<and>
      get_track_history ?s (fst (assign_track_id sid b ?s)) = []"
      unfolding tid by (intro conjI)
  qed
  from a b c d show ?thesis by (intro conjI)
qed

theorem history_bounded_fifo_witness:
  "length (get_track_history (fst (serve (replicate 40 (''a'', [Some [\<lparr>box_xyxy = (30, -10, 50, 10), box_conf = 0.9, box_cls = 0\<rparr>]])))) 0) \<le> 30 \<and>
   get_track_history (snd (track_box ''a'' ([], \<lparr>trackers = [''a'' \<mapsto> [(0, (0, 0))]], track_id_counter = 1, track_history = [0 \<mapsto> [(0, 0)]]\<rparr>) \<lparr>box_xyxy = (30, -10, 50, 10), box_conf = 0.9, box_cls = 0\<rparr>)) 0 = [(0, 0), (40, 0)] \<and>
   get_track_history (snd (track_box ''a'' ([], \<lparr>trackers = [''a'' \<mapsto> [(0, (0, 0))]], track_id_counter = 1, track_history = [0 \<mapsto> (7, 7) # replicate 29 (0, 0)]\<rparr>) \<lparr>box_xyxy = (30, -10, 50, 10), box_conf = 0.9, box_cls = 0\<rparr>)) 0 = replicate 29 (0, 0) @ [(40, 0)] \<and>
   get_track_history (snd (track_box ''a'' ([], \<lparr>trackers = [''a'' \<mapsto> [(0, (0, 0))]], track_id_counter = 1, track_history = [0 \<mapsto> [(0, 0)]]\<rparr>) \<lparr>box_xyxy = (30, -10, 50, 10), box_conf = 0.9, box_cls = 0\<rparr>)) 5 = [] \<and>
   length (get_track_history (snd (track_box ''a'' ([], \<lparr>trackers = [''a'' \<mapsto> [(0, (0, 0))]], track_id_counter = 1, track_history = [0 \<mapsto> (7, 7) # replicate 29 (0, 0)]\<rparr>) \<lparr>box_xyxy = (30, -10, 50, 10), box_conf = 0.9, box_cls = 0\<rparr>)) 0) \<le> 30"
proof -
  note short = history_bounded_fifo [where frames = "replicate 40 (''a'', [Some [\<lparr>box_xyxy = (30, -10, 50, 10), box_conf = 0.9, box_cls = 0\<rparr>]])"
      and s = "\<lparr>trackers = [''a'' \<mapsto> [(0, (0, 0))]], track_id_counter = 1, track_history = [0 \<mapsto> [(0, 0)]]\<rparr>" and sid = "''a''" and b = "\<lparr>box_xyxy = (30, -10, 50, 10), box_conf = 0.9, box_cls = 0\<rparr>" and dets = "[]"]
  note full = history_bounded_fifo [where frames = "[]"
      and s = "\<lparr>trackers = [''a'' \<mapsto> [(0, (0, 0))]], track_id_counter = 1, track_history = [0 \<mapsto> (7, 7) # replicate 29 (0, 0)]\<rparr>" and sid = "''a''" and b = "\<lparr>box_xyxy = (30, -10, 50, 10), box_conf = 0.9, box_cls = 0\<rparr>" and dets = "[]"]
  have t0: "fst (assign_track_id ''a'' (box_xyxy \<lparr>box_xyxy = (30, -10, 50, 10), box_conf = 0.9, box_cls = 0\<rparr>) \<lparr>trackers = [''a'' \<mapsto> [(0, (0, 0))]], track_id_counter = 1, track_history = [0 \<mapsto> [(0, 0)]]\<rparr>) = 0"
    by (simp add: tracker_eval)
  have t30: "fst (assign_track_id ''a'' (box_xyxy \<lparr>box_xyxy = (30, -10, 50, 10), box_conf = 0.9, box_cls = 0\<rparr>) \<lparr>trackers = [''a'' \<mapsto> [(0, (0, 0))]], track_id_counter = 1, track_history = [0 \<mapsto> (7, 7) # replicate 29 (0, 0)]\<rparr>) = 0"
    by (simp add: tracker_eval)
  have c1: "length (get_track_history (fst (serve (replicate 40 (''a'', [Some [\<lparr>box_xyxy = (30, -10, 50, 10), box_conf = 0.9, box_cls = 0\<rparr>]])))) 0) \<le> 30"
    by (rule short [THEN conjunct1, THEN spec])
  have h2: "length (get_track_history \<lparr>trackers = [''a'' \<mapsto> [(0, (0, 0))]], track_id_counter = 1, track_history = [0 \<mapsto> [(0, 0)]]\<rparr> (fst (assign_track_id ''a'' (box_xyxy \<lparr>box_xyxy = (30, -10, 50, 10), box_conf = 0.9, box_cls = 0\<rparr>) \<lparr>trackers = [''a'' \<mapsto> [(0, (0, 0))]], track_id_counter = 1, track_history = [0 \<mapsto> [(0, 0)]]\<rparr>))) < 30"
    unfolding t0 by (simp add: get_track_history_def)
  from short [THEN conjunct2, THEN conjunct1, THEN mp, OF h2]
  have c2: "get_track_history (snd (track_box ''a'' ([], \<lparr>trackers = [''a'' \<mapsto> [(0, (0, 0))]], track_id_counter = 1, track_history = [0 \<mapsto> [(0, 0)]]\<rparr>) \<lparr>box_xyxy = (30, -10, 50, 10), box_conf = 0.9, box_cls = 0\<rparr>)) 0 = [(0, 0), (40, 0)]"
    unfolding t0 by (simp add: get_track_history_def centre_def)
  have h3: "length (get_track_history \<lparr>trackers = [''a'' \<mapsto> [(0, (0, 0))]], track_id_counter = 1, track_history = [0 \<mapsto> (7, 7) # replicate 29 (0, 0)]\<rparr> (fst (assign_track_id ''a'' (box_xyxy \<lparr>box_xyxy = (30, -10, 50, 10), box_conf = 0.9, box_cls = 0\<rparr>) \<lparr>trackers = [''a'' \<mapsto> [(0, (0, 0))]], track_id_counter = 1, track_history = [0 \<mapsto> (7, 7) # replicate 29 (0, 0)]\<rparr>))) = 30"
    unfolding t30 by (simp add: get_track_history_def)
  from full [THEN conjunct2, THEN conjunct2, THEN conjunct1, THEN mp, OF h3]
  have c3: "get_track_history (snd (track_box ''a'' ([], \<lparr>trackers = [''a'' \<mapsto> [(0, (0, 0))]], track_id_counter = 1, track_history = [0 \<mapsto> (7, 7) # replicate 29 (0, 0)]\<rparr>) \<lparr>box_xyxy = (30, -10, 50, 10), box_conf = 0.9, box_cls = 0\<rparr>)) 0 = replicate 29 (0, 0) @ [(40, 0)]"
    unfolding t30 by (simp add: get_track_history_def centre_def)
  have h4: "5 \<noteq> fst (assign_track_id ''a'' (box_xyxy \<lparr>box_xyxy = (30, -10, 50, 10), box_conf = 0.9, box_cls = 0\<rparr>) \<lparr>trackers = [''a'' \<mapsto> [(0, (0, 0))]], track_id_counter = 1, track_history = [0 \<mapsto> [(0, 0)]]\<rparr>)"
    unfolding t0 by simp
  from short [THEN conjunct2, THEN conjunct2, THEN conjunct2, THEN conjunct1, THEN spec, THEN mp, OF h4]
  have c4: "get_track_history (snd (track_box ''a'' ([], \<lparr>trackers = [''a'' \<mapsto> [(0, (0, 0))]], track_id_counter = 1, track_history = [0 \<mapsto> [(0, 0)]]\<rparr>) \<lparr>box_xyxy = (30, -10, 50, 10), box_conf = 0.9, box_cls = 0\<rparr>)) 5 = []"
    by (simp add: get_track_history_def)
  have h5: "\<forall>t. length (get_track_history \<lparr>trackers = [''a'' \<mapsto> [(0, (0, 0))]], track_id_counter = 1, track_history = [0 \<mapsto> (7, 7) # replicate 29 (0, 0)]\<rparr> t) \<le> 30"
    by (simp add: get_track_history_def)
  from full [THEN conjunct2, THEN conjunct2, THEN conjunct2, THEN conjunct2, THEN mp, OF h5]
  have c5: "length (get_track_history (snd (track_box ''a'' ([], \<lparr>trackers = [''a'' \<mapsto> [(0, (0, 0))]], track_id_counter = 1, track_history = [0 \<mapsto> (7, 7) # replicate 29 (0, 0)]\<rparr>) \<lparr>box_xyxy = (30, -10, 50, 10), box_conf = 0.9, box_cls = 0\<rparr>)) 0) \<le> 30"
    by (rule spec)
  from c1 c2 c3 c4 c5 show ?thesis by (intro conjI)
qed

theorem track_ids_never_shared_witness:
  "session_ids (fst (serve [(''a'', [Some [\<lparr>box_xyxy = (-10, -10, 10, 10), box_conf = 0.9, box_cls = 0\<rparr>]]), (''b'', [Some [\<lparr>box_xyxy = (-10, -10, 10, 10), box_conf = 0.9, box_cls = 0\<rparr>]])])) ''a'' = {0} \<and>
   session_ids (fst (serve [(''a'', [Some [\<lparr>box_xyxy = (-10, -10, 10, 10), box_conf = 0.9, box_cls = 0\<rparr>]]), (''b'', [Some [\<lparr>box_xyxy = (-10, -10, 10, 10), box_conf = 0.9, box_cls = 0\<rparr>]])])) ''b'' = {1} \<and>
   session_ids (fst (serve [(''a'', [Some [\<lparr>box_xyxy = (-10, -10, 10, 10), box_conf = 0.9, box_cls = 0\<rparr>]]), (''b'', [Some [\<lparr>box_xyxy = (-10, -10, 10, 10), box_conf = 0.9, box_cls = 0\<rparr>]])])) ''a'' \<inter> session_ids (fst (serve [(''a'', [Some [\<lparr>box_xyxy = (-10, -10, 10, 10), box_conf = 0.9, box_cls = 0\<rparr>]]), (''b'', [Some [\<lparr>box_xyxy = (-10, -10, 10, 10), box_conf = 0.9, box_cls = 0\<rparr>]])])) ''b'' = {} \<and>
   returned (snd (serve [(''a'', [Some [\<lparr>box_xyxy = (-10, -10, 10, 10), box_conf = 0.9, box_cls = 0\<rparr>]]), (''b'', [Some [\<lparr>box_xyxy = (-10, -10, 10, 10), box_conf = 0.9, box_cls = 0\<rparr>]])])) = [(''a'', \<lparr>det_bbox = (-10, -10, 10, 10), det_confidence = 0.9, det_class_id = 0, det_track_id = 0\<rparr>), (''b'', \<lparr>det_bbox = (-10, -10, 10, 10), det_confidence = 0.9, det_class_id = 0, det_track_id = 1\<rparr>)] \<and>
   det_track_id \<lparr>det_bbox = (-10, -10, 10, 10), det_confidence = 0.9, det_class_id = 0, det_track_id = 0\<rparr> \<noteq> det_track_id \<lparr>det_bbox = (-10, -10, 10, 10), det_confidence = 0.9, det_class_id = 0, det_track_id = 1\<rparr> \<and>
   (\<exists>(sid, d) \<in> set (returned (snd (serve [(''a'', [Some [\<lparr>box_xyxy = (-10, -10, 10, 10), box_conf = 0.9, box_cls = 0\<rparr>]]), (''b'', [Some [\<lparr>box_xyxy = (-10, -10, 10, 10), box_conf = 0.9, box_cls = 0\<rparr>]])]))). det_track_id d = 0 \<and> centre (det_bbox d) = (0, 0)) \<and>
   fst (assign_track_id ''b'' (200, 200, 220, 220) (fst (serve [(''a'', [Some [\<lparr>box_xyxy = (-10, -10, 10, 10), box_conf = 0.9, box_cls = 0\<rparr>]]), (''b'', [Some [\<lparr>box_xyxy = (-10, -10, 10, 10), box_conf = 0.9, box_cls = 0\<rparr>]])]))) = 2 \<and>
   fst (assign_track_id ''b'' (200, 200, 220, 220) (fst (serve [(''a'', [Some [\<lparr>box_xyxy = (-10, -10, 10, 10), box_conf = 0.9, box_cls = 0\<rparr>]]), (''b'', [Some [\<lparr>box_xyxy = (-10, -10, 10, 10), box_conf = 0.9, box_cls = 0\<rparr>]])]))) \<notin> session_ids (fst (serve [(''a'', [Some [\<lparr>box_xyxy = (-10, -10, 10, 10), box_conf = 0.9, box_cls = 0\<rparr>]]), (''b'', [Some [\<lparr>box_xyxy = (-10, -10, 10, 10), box_conf = 0.9, box_cls = 0\<rparr>]])])) ''a'' \<and>
   get_track_history (fst (serve [(''a'', [Some [\<lparr>box_xyxy = (-10, -10, 10, 10), box_conf = 0.9, box_cls = 0\<rparr>]]), (''b'', [Some [\<lparr>box_xyxy = (-10, -10, 10, 10), box_conf = 0.9, box_cls = 0\<rparr>]])])) (fst (assign_track_id ''b'' (200, 200, 220, 220) (fst (serve [(''a'', [Some [\<lparr>box_xyxy = (-10, -10, 10, 10), box_conf = 0.9, box_cls = 0\<rparr>]]), (''b'', [Some [\<lparr>box_xyxy = (-10, -10, 10, 10), box_conf = 0.9, box_cls = 0\<rparr>]])])))) = []"
proof -
  note inst = track_ids_never_shared [of "[(''a'', [Some [\<lparr>box_xyxy = (-10, -10, 10, 10), box_conf = 0.9, box_cls = 0\<rparr>]]), (''b'', [Some [\<lparr>box_xyxy = (-10, -10, 10, 10), box_conf = 0.9, box_cls = 0\<rparr>]])]"]
  have ev: "session_tracks (fst (serve [(''a'', [Some [\<lparr>box_xyxy = (-10, -10, 10, 10), box_conf = 0.9, box_cls = 0\<rparr>]]), (''b'', [Some [\<lparr>box_xyxy = (-10, -10, 10, 10), box_conf = 0.9, box_cls = 0\<rparr>]])])) ''a'' = [(0, (0, 0))]"
      "session_tracks (fst (serve [(''a'', [Some [\<lparr>box_xyxy = (-10, -10, 10, 10), box_conf = 0.9, box_cls = 0\<rparr>]]), (''b'', [Some [\<lparr>box_xyxy = (-10, -10, 10, 10), box_conf = 0.9, box_cls = 0\<rparr>]])])) ''b'' = [(1, (0, 0))]"
      "returned (snd (serve [(''a'', [Some [\<lparr>box_xyxy = (-10, -10, 10, 10), box_conf = 0.9, box_cls = 0\<rparr>]]), (''b'', [Some [\<lparr>box_xyxy = (-10, -10, 10, 10), box_conf = 0.9, box_cls = 0\<rparr>]])])) = [(''a'', \<lparr>det_bbox = (-10, -10, 10, 10), det_confidence = 0.9, det_class_id = 0, det_track_id = 0\<rparr>), (''b'', \<lparr>det_bbox = (-10, -10, 10, 10), det_confidence = 0.9, det_class_id = 0, det_track_id = 1\<rparr>)]"
      "get_track_history (fst (serve [(''a'', [Some [\<lparr>box_xyxy = (-10, -10, 10, 10), box_conf = 0.9, box_cls = 0\<rparr>]]), (''b'', [Some [\<lparr>box_xyxy = (-10, -10, 10, 10), box_conf = 0.9, box_cls = 0\<rparr>]])])) 0 = [(0, 0)]"
      "track_id_counter (fst (serve [(''a'', [Some [\<lparr>box_xyxy = (-10, -10, 10, 10), box_conf = 0.9, box_cls = 0\<rparr>]]), (''b'', [Some [\<lparr>box_xyxy = (-10, -10, 10, 10), box_conf = 0.9, box_cls = 0\<rparr>]])])) = 2"
    by (simp_all add: serve_def serve_step_def init_tracker_def returned_def tracker_eval)
  have c1: "session_ids (fst (serve [(''a'', [Some [\<lparr>box_xyxy = (-10, -10, 10, 10), box_conf = 0.9, box_cls = 0\<rparr>]]), (''b'', [Some [\<lparr>box_xyxy = (-10, -10, 10, 10), box_conf = 0.9, box_cls = 0\<rparr>]])])) ''a'' = {0}"
    and c2: "session_ids (fst (serve [(''a'', [Some [\<lparr>box_xyxy = (-10, -10, 10, 10), box_conf = 0.9, box_cls = 0\<rparr>]]), (''b'', [Some [\<lparr>box_xyxy = (-10, -10, 10, 10), box_conf = 0.9, box_cls = 0\<rparr>]])])) ''b'' = {1}"
    by (simp_all add: session_ids_def ev)
  have ne: "''a'' \<noteq> ''b''" by simp
  from inst [THEN conjunct1, THEN spec, THEN spec, THEN mp, OF ne]
  have c3: "session_ids (fst (serve [(''a'', [Some [\<lparr>box_xyxy = (-10, -10, 10, 10), box_conf = 0.9, box_cls = 0\<rparr>]]), (''b'', [Some [\<lparr>box_xyxy = (-10, -10, 10, 10), box_conf = 0.9, box_cls = 0\<rparr>]])])) ''a'' \<inter> session_ids (fst (serve [(''a'', [Some [\<lparr>box_xyxy = (-10, -10, 10, 10), box_conf = 0.9, box_cls = 0\<rparr>]]), (''b'', [Some [\<lparr>box_xyxy = (-10, -10, 10, 10), box_conf = 0.9, box_cls = 0\<rparr>]])])) ''b'' = {}" .
  have m0: "(''a'', \<lparr>det_bbox = (-10, -10, 10, 10), det_confidence = 0.9, det_class_id = 0, det_track_id = 0\<rparr>) \<in> set (returned (snd (serve [(''a'', [Some [\<lparr>box_xyxy = (-10, -10, 10, 10), box_conf = 0.9, box_cls = 0\<rparr>]]), (''b'', [Some [\<lparr>box_xyxy = (-10, -10, 10, 10), box_conf = 0.9, box_cls = 0\<rparr>]])])))"
    and m1: "(''b'', \<lparr>det_bbox = (-10, -10, 10, 10), det_confidence = 0.9, det_class_id = 0, det_track_id = 1\<rparr>) \<in> set (returned (snd (serve [(''a'', [Some [\<lparr>box_xyxy = (-10, -10, 10, 10), box_conf = 0.9, box_cls = 0\<rparr>]]), (''b'', [Some [\<lparr>box_xyxy = (-10, -10, 10, 10), box_conf = 0.9, box_cls = 0\<rparr>]])])))"
    by (simp_all add: ev)
  from inst [THEN conjunct2, THEN conjunct1, THEN bspec, OF m0, simplified prod.case, THEN bspec, OF m1,
      simplified prod.case]
  have imp: "det_track_id \<lparr>det_bbox = (-10, -10, 10, 10), det_confidence = 0.9, det_class_id = 0, det_track_id = 0\<rparr> = det_track_id \<lparr>det_bbox = (-10, -10, 10, 10), det_confidence = 0.9, det_class_id = 0, det_track_id = 1\<rparr> \<longrightarrow> ''a'' = ''b''" .
  have c5: "det_track_id \<lparr>det_bbox = (-10, -10, 10, 10), det_confidence = 0.9, det_class_id = 0, det_track_id = 0\<rparr> \<noteq> det_track_id \<lparr>det_bbox = (-10, -10, 10, 10), det_confidence = 0.9, det_class_id = 0, det_track_id = 1\<rparr>"
  proof
    assume "det_track_id \<lparr>det_bbox = (-10, -10, 10, 10), det_confidence = 0.9, det_class_id = 0, det_track_id = 0\<rparr> = det_track_id \<lparr>det_bbox = (-10, -10, 10, 10), det_confidence = 0.9, det_class_id = 0, det_track_id = 1\<rparr>"
    with imp have "''a'' = ''b''" by (rule mp)
    with ne show False by (rule notE)
  qed
  have hc: "(0, 0) \<in> set (get_track_history (fst (serve [(''a'', [Some [\<lparr>box_xyxy = (-10, -10, 10, 10), box_conf = 0.9, box_cls = 0\<rparr>]]), (''b'', [Some [\<lparr>box_xyxy = (-10, -10, 10, 10), box_conf = 0.9, box_cls = 0\<rparr>]])])) 0)"
    by (simp add: ev)
  from inst [THEN conjunct2, THEN conjunct2, THEN conjunct1, THEN spec, THEN bspec, OF hc]
  have c6: "\<exists>(sid, d) \<in> set (returned (snd (serve [(''a'', [Some [\<lparr>box_xyxy = (-10, -10, 10, 10), box_conf = 0.9, box_cls = 0\<rparr>]]), (''b'', [Some [\<lparr>box_xyxy = (-10, -10, 10, 10), box_conf = 0.9, box_cls = 0\<rparr>]])]))). det_track_id d = 0 \<and> centre (det_bbox d) = (0, 0)" .
  have far: "\<forall>(t, p) \<in> set (session_tracks (fst (serve [(''a'', [Some [\<lparr>box_xyxy = (-10, -10, 10, 10), box_conf = 0.9, box_cls = 0\<rparr>]]), (''b'', [Some [\<lparr>box_xyxy = (-10, -10, 10, 10), box_conf = 0.9, box_cls = 0\<rparr>]])])) ''b''). \<not> distance (centre (200, 200, 220, 220)) p < 50"
    by (simp add: ev centre_def distance_less_50)
  note fr = inst [THEN conjunct2, THEN conjunct2, THEN conjunct2, THEN spec, THEN spec, THEN mp, OF far]
  have c7: "fst (assign_track_id ''b'' (200, 200, 220, 220) (fst (serve [(''a'', [Some [\<lparr>box_xyxy = (-10, -10, 10, 10), box_conf = 0.9, box_cls = 0\<rparr>]]), (''b'', [Some [\<lparr>box_xyxy = (-10, -10, 10, 10), box_conf = 0.9, box_cls = 0\<rparr>]])]))) = 2"
    using assign_track_id_fresh(1) [OF far] by (simp add: ev)
  from fr [THEN conjunct1, THEN spec]
  have c8: "fst (assign_track_id ''b'' (200, 200, 220, 220) (fst (serve [(''a'', [Some [\<lparr>box_xyxy = (-10, -10, 10, 10), box_conf = 0.9, box_cls = 0\<rparr>]]), (''b'', [Some [\<lparr>box_xyxy = (-10, -10, 10, 10), box_conf = 0.9, box_cls = 0\<rparr>]])]))) \<notin> session_ids (fst (serve [(''a'', [Some [\<lparr>box_xyxy = (-10, -10, 10, 10), box_conf = 0.9, box_cls = 0\<rparr>]]), (''b'', [Some [\<lparr>box_xyxy = (-10, -10, 10, 10), box_conf = 0.9, box_cls = 0\<rparr>]])])) ''a''" .
  from fr [THEN conjunct2, THEN conjunct2]
  have c9: "get_track_history (fst (serve [(''a'', [Some [\<lparr>box_xyxy = (-10, -10, 10, 10), box_conf = 0.9, box_cls = 0\<rparr>]]), (''b'', [Some [\<lparr>box_xyxy = (-10, -10, 10, 10), box_conf = 0.9, box_cls = 0\<rparr>]])])) (fst (assign_track_id ''b'' (200, 200, 220, 220) (fst (serve [(''a'', [Some [\<lparr>box_xyxy = (-10, -10, 10, 10), box_conf = 0.9, box_cls = 0\<rparr>]]), (''b'', [Some [\<lparr>box_xyxy = (-10, -10, 10, 10), box_conf = 0.9, box_cls = 0\<rparr>]])])))) = []" .
  from c1 c2 c3 ev(3) c5 c6 c7 c8 c9 show ?thesis by (intro conjI)
qed

end
